theory Spec2Isabelle
  imports Main "HOL-Library.Multiset"
begin

section \<open>Argument conversion of the HANA driver (driver/convert.go)\<close>

text \<open>
  The file \<^verbatim>\<open>driver/convert.go\<close> converts the arguments a database/sql caller
  passes to \<^verbatim>\<open>Exec\<close>, \<^verbatim>\<open>Query\<close> and procedure calls into the value space of the
  protocol layer.  This theory embeds its functions \<^verbatim>\<open>isNilArg\<close>, \<^verbatim>\<open>reorderNVArgs\<close>,
  \<^verbatim>\<open>convertArg\<close>, \<^verbatim>\<open>convertExecArgs\<close>, \<^verbatim>\<open>convertQueryArgs\<close> and
  \<^verbatim>\<open>convertCallArgs\<close> and proves the properties of the specification about them.
\<close>

subsection \<open>Data model\<close>

text \<open>
  \<^verbatim>\<open>*p.LobInDescr\<close> is declared in the protocol package.  Its state is opaque here;
  \<^verbatim>\<open>FetchNext\<close> and \<^verbatim>\<open>Opt.IsLastData\<close> are collaborators (see \<open>externals\<close> below).
\<close>

datatype lobInDescr = LobInDescr (lobState: nat)

text \<open>
  The dynamic values an \<^verbatim>\<open>any\<close> holds, as far as \<^verbatim>\<open>convert.go\<close> inspects them:
  \<^item> \<open>NilIface\<close>: the untyped \<^verbatim>\<open>nil\<close> interface value;
  \<^item> \<open>Prim n\<close>: a value whose kind is not \<^verbatim>\<open>reflect.Ptr\<close> and whose type is not
    \<^verbatim>\<open>sql.Out\<close> (a number, a string, a struct, ...), identified by \<open>n\<close>;
  \<^item> \<open>NilPtr\<close>: a nil pointer, \<open>Ptr v\<close>: a non-nil pointer whose
    \<^verbatim>\<open>Elem().Interface()\<close> is \<open>v\<close> (pointer chains are finite), both of another type
    than \<^verbatim>\<open>*sql.Rows\<close> and \<^verbatim>\<open>*p.LobInDescr\<close>;
  \<^item> \<open>Out d i\<close>: the struct \<^verbatim>\<open>sql.Out{Dest: d, In: i}\<close>;
  \<^item> \<open>Rows\<close>: a non-nil \<^verbatim>\<open>*sql.Rows\<close>; \<open>NilRows\<close>: the nil pointer of type
    \<^verbatim>\<open>*sql.Rows\<close>, which a caller can pass as \<^verbatim>\<open>(*sql.Rows)(nil)\<close>;
  \<^item> \<open>Lob l\<close>: a non-nil \<^verbatim>\<open>*p.LobInDescr\<close> whose descriptor is in state \<open>l\<close>.  Every
    argument slot owns its descriptor: no two slots point to the same one.  The type
    belongs to an internal package: a caller cannot name it, and a descriptor comes from
    \<^verbatim>\<open>Convert\<close> only, so there is no nil \<^verbatim>\<open>*p.LobInDescr\<close> among the values.
\<close>

datatype val =
    NilIface
  | Prim nat
  | NilPtr
  | Ptr val
  | Out (Dest: val) (In: bool)
  | Rows
  | NilRows
  | Lob lobInDescr

text \<open>\<^verbatim>\<open>driver.NamedValue\<close> of database/sql/driver.\<close>

record namedValue =
  Name :: string
  Ordinal :: int
  Value :: val

text \<open>
  \<^verbatim>\<open>*p.ParameterField\<close> is declared in the protocol package; \<^verbatim>\<open>convert.go\<close> uses its
  accessors \<^verbatim>\<open>Name()\<close>, \<^verbatim>\<open>In()\<close>, \<^verbatim>\<open>Out()\<close> and its \<^verbatim>\<open>Convert\<close> method.  The record
  holds the accessors' values and a type code that stands for whatever else \<^verbatim>\<open>Convert\<close>
  depends on.
\<close>

record parameterField =
  pfName :: string
  pfIn :: bool
  pfOut :: bool
  pfType :: nat

text \<open>Errors of the collaborators (\<^verbatim>\<open>Value()\<close>, \<^verbatim>\<open>Convert\<close>, \<^verbatim>\<open>FetchNext\<close>) are opaque.\<close>

datatype exterr = ExtErr string

text \<open>
  The errors \<^verbatim>\<open>convert.go\<close> returns, one constructor for each \<^verbatim>\<open>fmt.Errorf\<close> format with
  the format's arguments (a value printed with \<^verbatim>\<open>%T\<close> is carried whole), \<open>Underlying\<close>
  for an error returned as it is, and the two run-time panics of the Go code.
\<close>

datatype error =
    ArityMultiple nat nat
  | ArityExpected nat nat
  | OutputFieldNotAllowed parameterField
  | OutputArgNotAllowed namedValue
  | NamedNotSupported string
  | ConversionError parameterField exterr
  | Underlying exterr
  | InvalidArgName string string
  | InArgWithOutField parameterField
  | OutArgWithNonOutField parameterField
  | InvalidOutputParameterType val
  | ParameterTypeAt val nat
  | OutputParameterAt val nat
  | PanicDivideByZero
  | PanicIndexOutOfRange

text \<open>
  The collaborators of \<^verbatim>\<open>convert.go\<close> that are not part of it:
  \<^item> \<open>valuer v\<close>: \<open>None\<close> when the dynamic type of \<open>v\<close> does not implement
    \<^verbatim>\<open>driver.Valuer\<close>, otherwise \<open>Some\<close> of what \<^verbatim>\<open>v.Value()\<close> returns;
  \<^item> \<open>Convert f v\<close>: \<^verbatim>\<open>f.Convert(v, cesu8Encoder)\<close>;
  \<^item> \<open>FetchNext n l\<close>: the state of the descriptor after \<^verbatim>\<open>FetchNext(n)\<close>, or its error;
  \<^item> \<open>IsLastData l\<close>: \<^verbatim>\<open>Opt.IsLastData()\<close> of a descriptor in state \<open>l\<close>;
  \<^item> \<open>MinString fs s\<close>: \<^verbatim>\<open>levenshtein.MinString\<close> over the names of \<open>fs\<close>.
\<close>

record externals =
  valuer :: "val \<Rightarrow> (exterr + val) option"
  Convert :: "parameterField \<Rightarrow> val \<Rightarrow> exterr + val"
  FetchNext :: "int \<Rightarrow> lobInDescr \<Rightarrow> exterr + lobInDescr"
  IsLastData :: "lobInDescr \<Rightarrow> bool"
  MinString :: "parameterField list \<Rightarrow> string \<Rightarrow> string"

subsection \<open>isNilArg\<close>

text \<open>
  \<^verbatim>\<open>isNilArg\<close> (lines 14-26): \<^verbatim>\<open>nil\<close> is nil; a value that is not a pointer is not; a
  nil pointer is, whatever its type; a non-nil pointer is nil when what it points to is.
  A non-nil \<^verbatim>\<open>*sql.Rows\<close> or \<^verbatim>\<open>*p.LobInDescr\<close> points to a struct, which is not a
  pointer.
\<close>

fun isNilArg :: "val \<Rightarrow> bool" where
  "isNilArg NilIface = True"
| "isNilArg (Prim n) = False"
| "isNilArg NilPtr = True"
| "isNilArg (Ptr v) = isNilArg v"
| "isNilArg (Out d i) = False"
| "isNilArg Rows = False"
| "isNilArg NilRows = True"
| "isNilArg (Lob l) = False"

subsection \<open>convertArg\<close>

text \<open>
  The loop of \<^verbatim>\<open>convertArg\<close> (lines 44-53).  Nothing bounds the number of rounds, so
  the result is an option: \<open>None\<close> is a loop that never ends.
\<close>

partial_function (option) valuerLoop ::
  "(val \<Rightarrow> (exterr + val) option) \<Rightarrow> val \<Rightarrow> (exterr + val) option" where
  "valuerLoop vl arg =
     (if isNilArg arg then Some (Inr arg)
      else (case vl arg of
              None \<Rightarrow> Some (Inr arg)
            | Some (Inl err) \<Rightarrow> Some (Inl err)
            | Some (Inr arg') \<Rightarrow> valuerLoop vl arg'))"

declare valuerLoop.simps [code]

definition convertArg :: "externals \<Rightarrow> parameterField \<Rightarrow> val \<Rightarrow> (exterr + val) option" where
  "convertArg ext field arg =
     (case valuerLoop (valuer ext) arg of
        None \<Rightarrow> None
      | Some (Inl err) \<Rightarrow> Some (Inl err)
      | Some (Inr arg') \<Rightarrow> Some (Convert ext field arg'))"

subsection \<open>reorderNVArgs\<close>

text \<open>
  The inner loop of \<^verbatim>\<open>reorderNVArgs\<close> (lines 33-35):
  \<^verbatim>\<open>for j := i; j > pos; j-- { nvargs[j] = nvargs[j-1] }\<close>.
  It runs with \<open>j \<le> i < len(nvargs)\<close>, so every index is in range.
\<close>

function shiftRight :: "nat \<Rightarrow> nat \<Rightarrow> namedValue list \<Rightarrow> namedValue list" where
  "shiftRight pos j nvargs =
     (if j > pos then shiftRight pos (j - 1) (nvargs[j := nvargs ! (j - 1)]) else nvargs)"
  by pat_completeness auto
termination
  by (relation "measure (\<lambda>(pos, j, nvargs). j)") auto

declare shiftRight.simps [simp del]

lemma length_shiftRight [simp]: "length (shiftRight pos j nvargs) = length nvargs"
  by (induction pos j nvargs rule: shiftRight.induct) (subst shiftRight.simps, simp)

text \<open>
  The outer loop (lines 30-38), from index \<open>i\<close> on.  There is no \<^verbatim>\<open>break\<close>: after a
  match has been moved to \<open>pos\<close> the scan goes on with \<open>i + 1\<close>.
\<close>

function reorderFrom :: "nat \<Rightarrow> string \<Rightarrow> nat \<Rightarrow> namedValue list \<Rightarrow> namedValue list" where
  "reorderFrom pos name i nvargs =
     (if i < length nvargs then
        (if Name (nvargs ! i) \<noteq> '''' \<and> Name (nvargs ! i) = name then
           (let tmp = nvargs ! i
            in reorderFrom pos name (i + 1) ((shiftRight pos i nvargs)[pos := tmp]))
         else reorderFrom pos name (i + 1) nvargs)
      else nvargs)"
  by pat_completeness auto
termination
  by (relation "measure (\<lambda>(pos, name, i, nvargs). length nvargs - i)") auto

declare reorderFrom.simps [simp del]

definition reorderNVArgs :: "nat \<Rightarrow> string \<Rightarrow> namedValue list \<Rightarrow> namedValue list" where
  "reorderNVArgs pos name nvargs = reorderFrom pos name pos nvargs"

text \<open>The test of line 31 on one entry.\<close>

definition matchesName :: "string \<Rightarrow> namedValue \<Rightarrow> bool" where
  "matchesName name a = (Name a \<noteq> '''' \<and> Name a = name)"

subsection \<open>The first LOB chunk\<close>

text \<open>
  The type assertions \<^verbatim>\<open>.(sql.Out)\<close> and \<^verbatim>\<open>.(*sql.Rows)\<close>.  A type assertion looks at
  the dynamic type only: it holds of the nil pointer of type \<^verbatim>\<open>*sql.Rows\<close> as well.
\<close>

fun isOutArg :: "val \<Rightarrow> bool" where
  "isOutArg (Out d i) = True"
| "isOutArg v = False"

fun isRows :: "val \<Rightarrow> bool" where
  "isRows Rows = True"
| "isRows NilRows = True"
| "isRows v = False"

text \<open>
  The block \<^verbatim>\<open>// fetch first lob chunk\<close> of the three entry points: when the value is a
  \<^verbatim>\<open>*p.LobInDescr\<close>, \<^verbatim>\<open>FetchNext(lobChunkSize)\<close> is called on it once and changes the
  descriptor; its error is returned as it is.
\<close>

fun fetchFirstLobChunk :: "externals \<Rightarrow> int \<Rightarrow> val \<Rightarrow> exterr + val" where
  "fetchFirstLobChunk ext lobChunkSize (Lob lobInDescr) =
     (case FetchNext ext lobChunkSize lobInDescr of
        Inl err \<Rightarrow> Inl err
      | Inr lobInDescr' \<Rightarrow> Inr (Lob lobInDescr'))"
| "fetchFirstLobChunk ext lobChunkSize v = Inr v"

text \<open>\<^verbatim>\<open>!lobInDescr.Opt.IsLastData()\<close> for a value that is a \<^verbatim>\<open>*p.LobInDescr\<close>.\<close>

fun notLastData :: "externals \<Rightarrow> val \<Rightarrow> bool" where
  "notLastData ext (Lob lobInDescr) = (\<not> IsLastData ext lobInDescr)"
| "notLastData ext v = False"

subsection \<open>convertExecArgs\<close>

text \<open>
  The results of the entry points are options of sums: \<open>None\<close> when a \<^verbatim>\<open>Value()\<close> chain
  never ends, \<open>Some (Inl e)\<close> for a returned error or a panic, \<open>Some (Inr r)\<close> for a
  return without error.  \<open>r\<close> holds the caller's array as the call leaves it, since the
  entry points write to it in place.  What the array holds after an error is not modelled.
  The Go parameter \<^verbatim>\<open>fields\<close> is written \<open>flds\<close>.
\<close>

text \<open>
  The body of the inner loop (lines 75-98) on the slot \<^verbatim>\<open>nvarg\<close>, with the flag
  \<^verbatim>\<open>hasAddLobData\<close> of the row.
\<close>

definition execArg ::
  "externals \<Rightarrow> int \<Rightarrow> parameterField \<Rightarrow> namedValue \<Rightarrow> bool \<Rightarrow> (error + namedValue \<times> bool) option" where
  "execArg ext lobChunkSize field nvarg hasAddLobData =
     (if pfOut field then Some (Inl (OutputFieldNotAllowed field))
      else if isOutArg (Value nvarg) then Some (Inl (OutputArgNotAllowed nvarg))
      else if Name nvarg \<noteq> '''' then Some (Inl (NamedNotSupported (Name nvarg)))
      else (case convertArg ext field (Value nvarg) of
              None \<Rightarrow> None
            | Some (Inl err) \<Rightarrow> Some (Inl (ConversionError field err))
            | Some (Inr v) \<Rightarrow>
                (case fetchFirstLobChunk ext lobChunkSize v of
                   Inl err \<Rightarrow> Some (Inl (Underlying err))
                 | Inr v' \<Rightarrow>
                     Some (Inr (nvarg\<lparr>Value := v'\<rparr>,
                                if notLastData ext v' then True else hasAddLobData)))))"

text \<open>
  The inner loop \<^verbatim>\<open>for j, field := range fields\<close> of row \<open>i\<close>, from field \<open>j\<close> on;
  \<open>base\<close> is \<open>i * numField\<close>.  Go panics on an index out of range.
\<close>

fun execRow ::
  "externals \<Rightarrow> int \<Rightarrow> nat \<Rightarrow> nat \<Rightarrow> parameterField list \<Rightarrow> namedValue list \<Rightarrow> bool
   \<Rightarrow> (error + namedValue list \<times> bool) option" where
  "execRow ext lobChunkSize base j [] nvargs hasAddLobData = Some (Inr (nvargs, hasAddLobData))"
| "execRow ext lobChunkSize base j (field # rest) nvargs hasAddLobData =
     (if base + j < length nvargs then
        (case execArg ext lobChunkSize field (nvargs ! (base + j)) hasAddLobData of
           None \<Rightarrow> None
         | Some (Inl e) \<Rightarrow> Some (Inl e)
         | Some (Inr (nvarg, h)) \<Rightarrow>
             execRow ext lobChunkSize base (j + 1) rest (nvargs[base + j := nvarg]) h)
      else Some (Inl PanicIndexOutOfRange))"

text \<open>The loop over the rows (lines 72-103), from row \<open>i\<close> on.\<close>

function execRows ::
  "externals \<Rightarrow> int \<Rightarrow> parameterField list \<Rightarrow> nat \<Rightarrow> nat \<Rightarrow> nat \<Rightarrow> namedValue list \<Rightarrow> nat list
   \<Rightarrow> (error + namedValue list \<times> nat list) option" where
  "execRows ext lobChunkSize flds numField numRow i nvargs addLobDataRecs =
     (if i < numRow then
        (case execRow ext lobChunkSize (i * numField) 0 flds nvargs False of
           None \<Rightarrow> None
         | Some (Inl e) \<Rightarrow> Some (Inl e)
         | Some (Inr (nvargs', hasAddLobData)) \<Rightarrow>
             execRows ext lobChunkSize flds numField numRow (i + 1) nvargs'
               (if hasAddLobData \<or> i = numRow - 1 then addLobDataRecs @ [i] else addLobDataRecs))
      else Some (Inr (nvargs, addLobDataRecs)))"
  by pat_completeness auto
termination
  by (relation "measure (\<lambda>(ext, lobChunkSize, flds, numField, numRow, i, nvargs, recs). numRow - i)")
     auto

declare execRows.simps [simp del]

text \<open>
  \<^verbatim>\<open>convertExecArgs\<close> (lines 64-105).  \<^verbatim>\<open>len(nvargs) % numField\<close> panics in Go when
  \<^verbatim>\<open>numField\<close> is zero.
\<close>

definition convertExecArgs ::
  "externals \<Rightarrow> parameterField list \<Rightarrow> namedValue list \<Rightarrow> int
   \<Rightarrow> (error + namedValue list \<times> nat list) option" where
  "convertExecArgs ext flds nvargs lobChunkSize =
     (let numField = length flds in
      if numField = 0 then Some (Inl PanicDivideByZero)
      else if length nvargs mod numField \<noteq> 0 then
        Some (Inl (ArityMultiple (length nvargs) numField))
      else
        (let numRow = length nvargs div numField
         in execRows ext lobChunkSize flds numField numRow 0 nvargs []))"

subsection \<open>convertQueryArgs\<close>




subsection \<open>convertCallArgs\<close>

record callArgs =
  inFields :: "parameterField list"
  outFields :: "parameterField list"
  inArgs :: "namedValue list"
  outArgs :: "namedValue list"

definition newCallArgs :: callArgs where
  "newCallArgs = \<lparr>inFields = [], outFields = [], inArgs = [], outArgs = []\<rparr>"

text \<open>
  The block \<^verbatim>\<open>if field.In() { ... }\<close> (lines 186-207).  \<open>out\<close> is the local variable of
  line 183, a copy of the \<^verbatim>\<open>sql.Out\<close> struct in \<^verbatim>\<open>nvarg.Value\<close> (the zero struct when the
  value is not a \<^verbatim>\<open>sql.Out\<close>); \<open>nvarg\<close> is the slot \<^verbatim>\<open>prmnvargs[i]\<close>.  Line 191 assigns the
  converted destination to the field \<^verbatim>\<open>Dest\<close> of the local copy, which leaves
  \<^verbatim>\<open>nvarg.Value\<close> as it was; line 195 assigns to \<^verbatim>\<open>nvarg.Value\<close>.  The block returns
  \<open>out\<close>, the slot and the call arguments.
\<close>

definition callIn ::
  "externals \<Rightarrow> int \<Rightarrow> parameterField \<Rightarrow> bool \<Rightarrow> val \<Rightarrow> namedValue \<Rightarrow> callArgs
   \<Rightarrow> (error + val \<times> namedValue \<times> callArgs) option" where
  "callIn ext lobChunkSize field isOut out nvarg callArgs =
     (if pfIn field then
        (case (if isOut then
                 (if \<not> In out then Some (Inl (InArgWithOutField field))
                  else (case convertArg ext field (Dest out) of
                          None \<Rightarrow> None
                        | Some (Inl err) \<Rightarrow> Some (Inl (ConversionError field err))
                        | Some (Inr d) \<Rightarrow> Some (Inr (Out d (In out), nvarg))))
               else
                 (case convertArg ext field (Value nvarg) of
                    None \<Rightarrow> None
                  | Some (Inl err) \<Rightarrow> Some (Inl (ConversionError field err))
                  | Some (Inr v) \<Rightarrow> Some (Inr (out, nvarg\<lparr>Value := v\<rparr>))))
         of
           None \<Rightarrow> None
         | Some (Inl e) \<Rightarrow> Some (Inl e)
         | Some (Inr (out', nvarg')) \<Rightarrow>
             (case fetchFirstLobChunk ext lobChunkSize (Value nvarg') of
                Inl err \<Rightarrow> Some (Inl (Underlying err))
              | Inr v' \<Rightarrow>
                  (let nvarg'' = nvarg'\<lparr>Value := v'\<rparr>
                   in Some (Inr (out', nvarg'',
                        callArgs\<lparr>inArgs := inArgs callArgs @ [nvarg''],
                                 inFields := inFields callArgs @ [field]\<rparr>)))))
      else Some (Inr (out, nvarg, callArgs)))"

text \<open>The block \<^verbatim>\<open>if field.Out() { ... }\<close> (lines 209-218).\<close>

definition callOut ::
  "parameterField \<Rightarrow> bool \<Rightarrow> val \<Rightarrow> namedValue \<Rightarrow> callArgs \<Rightarrow> error + callArgs" where
  "callOut field isOut out nvarg callArgs =
     (if pfOut field then
        (if \<not> isOut then Inl (OutArgWithNonOutField field)
         else if isRows (Dest out) then Inl (InvalidOutputParameterType (Dest out))
         else Inr (callArgs\<lparr>outArgs := outArgs callArgs @ [nvarg],
                            outFields := outFields callArgs @ [field]\<rparr>))
      else Inr callArgs)"

text \<open>
  The body of the loop over the fields (lines 172-218) for field \<open>i\<close>.  \<open>prmnvargs\<close> is
  the slice \<^verbatim>\<open>nvargs[:len(fields)]\<close>.
\<close>

definition callField ::
  "externals \<Rightarrow> int \<Rightarrow> parameterField list \<Rightarrow> nat \<Rightarrow> parameterField \<Rightarrow> namedValue list \<Rightarrow> callArgs
   \<Rightarrow> (error + namedValue list \<times> callArgs) option" where
  "callField ext lobChunkSize flds i field prmnvargs callArgs =
     (let prmnvargs' = reorderNVArgs i (pfName field) prmnvargs in
      if \<not> i < length prmnvargs' then Some (Inl PanicIndexOutOfRange)
      else
        (let nvarg = prmnvargs' ! i in
         if Name nvarg \<noteq> '''' \<and> Name nvarg \<noteq> pfName field then
           Some (Inl (InvalidArgName (Name nvarg) (MinString ext flds (Name nvarg))))
         else
           (let isOut = isOutArg (Value nvarg);
                out = (if isOut then Value nvarg else Out NilIface False)
            in (case callIn ext lobChunkSize field isOut out nvarg callArgs of
                  None \<Rightarrow> None
                | Some (Inl e) \<Rightarrow> Some (Inl e)
                | Some (Inr (out', nvarg', callArgs')) \<Rightarrow>
                    (case callOut field isOut out' nvarg' callArgs' of
                       Inl e \<Rightarrow> Some (Inl e)
                     | Inr callArgs'' \<Rightarrow> Some (Inr (prmnvargs'[i := nvarg'], callArgs'')))))))"

text \<open>The loop \<^verbatim>\<open>for i, field := range fields\<close> (lines 171-219), from field \<open>i\<close> on.\<close>

fun callFields ::
  "externals \<Rightarrow> int \<Rightarrow> parameterField list \<Rightarrow> nat \<Rightarrow> parameterField list \<Rightarrow> namedValue list
   \<Rightarrow> callArgs \<Rightarrow> (error + namedValue list \<times> callArgs) option" where
  "callFields ext lobChunkSize flds i [] prmnvargs callArgs = Some (Inr (prmnvargs, callArgs))"
| "callFields ext lobChunkSize flds i (field # rest) prmnvargs callArgs =
     (case callField ext lobChunkSize flds i field prmnvargs callArgs of
        None \<Rightarrow> None
      | Some (Inl e) \<Rightarrow> Some (Inl e)
      | Some (Inr (prmnvargs', callArgs')) \<Rightarrow>
          callFields ext lobChunkSize flds (i + 1) rest prmnvargs' callArgs')"

text \<open>
  The loop over the table output arguments (lines 222-232), as a recursion over the
  entries \<^verbatim>\<open>nvargs[len(fields):]\<close> with their index \<open>i\<close>.
\<close>

fun callTableArgs :: "nat \<Rightarrow> namedValue list \<Rightarrow> callArgs \<Rightarrow> error + callArgs" where
  "callTableArgs i [] callArgs = Inr callArgs"
| "callTableArgs i (nvarg # rest) callArgs =
     (if \<not> isOutArg (Value nvarg) then Inl (ParameterTypeAt (Value nvarg) i)
      else if \<not> isRows (Dest (Value nvarg)) then Inl (OutputParameterAt (Dest (Value nvarg)) i)
      else callTableArgs (i + 1) rest (callArgs\<lparr>outArgs := outArgs callArgs @ [nvarg]\<rparr>))"

text \<open>
  \<^verbatim>\<open>convertCallArgs\<close> (lines 162-234).  The field loop works on the first
  \<^verbatim>\<open>len(fields)\<close> entries of the caller's array and leaves the others as they are; the
  array after the call is the window followed by them.
\<close>

definition convertCallArgs ::
  "externals \<Rightarrow> parameterField list \<Rightarrow> namedValue list \<Rightarrow> int
   \<Rightarrow> (error + namedValue list \<times> callArgs) option" where
  "convertCallArgs ext flds nvargs lobChunkSize =
     (if length nvargs < length flds then
        Some (Inl (ArityExpected (length nvargs) (length flds)))
      else
        (case callFields ext lobChunkSize flds 0 flds (take (length flds) nvargs) newCallArgs of
           None \<Rightarrow> None
         | Some (Inl e) \<Rightarrow> Some (Inl e)
         | Some (Inr (prmnvargs, callArgs)) \<Rightarrow>
             (case callTableArgs (length flds) (drop (length flds) nvargs) callArgs of
                Inl e \<Rightarrow> Some (Inl e)
              | Inr callArgs' \<Rightarrow>
                  Some (Inr (prmnvargs @ drop (length flds) nvargs, callArgs')))))"

subsection \<open>Rows that owe LOB data\<close>

text \<open>
  What the first \<^verbatim>\<open>FetchNext\<close> of an argument tells: the argument's value, converted for
  its field, is a \<^verbatim>\<open>*p.LobInDescr\<close> whose \<^verbatim>\<open>Opt.IsLastData()\<close> is false after the one
  \<^verbatim>\<open>FetchNext(lobChunkSize)\<close>.
\<close>

definition firstFetchNotLast :: "externals \<Rightarrow> int \<Rightarrow> parameterField \<Rightarrow> namedValue \<Rightarrow> bool" where
  "firstFetchNotLast ext lobChunkSize field nvarg =
     (case convertArg ext field (Value nvarg) of
        Some (Inr v) \<Rightarrow>
          (case fetchFirstLobChunk ext lobChunkSize v of
             Inr v' \<Rightarrow> notLastData ext v'
           | Inl err \<Rightarrow> False)
      | _ \<Rightarrow> False)"

text \<open>Some argument of row \<open>i\<close> of the batch \<open>nvargs\<close> is such an argument.\<close>

definition rowOwesLobData ::
  "externals \<Rightarrow> int \<Rightarrow> parameterField list \<Rightarrow> namedValue list \<Rightarrow> nat \<Rightarrow> bool" where
  "rowOwesLobData ext lobChunkSize flds nvargs i =
     list_ex (\<lambda>j. firstFetchNotLast ext lobChunkSize (flds ! j) (nvargs ! (i * length flds + j)))
       [0..<length flds]"

subsection \<open>Table output arguments\<close>

text \<open>
  What the last loop of \<^verbatim>\<open>convertCallArgs\<close> accepts: a \<^verbatim>\<open>sql.Out\<close> whose \<^verbatim>\<open>Dest\<close> is a
  \<^verbatim>\<open>*sql.Rows\<close>.
\<close>

definition cursorOutArg :: "val \<Rightarrow> bool" where
  "cursorOutArg v = (isOutArg v \<and> isRows (Dest v))"

text \<open>The ordinal and the name of an argument.\<close>

definition ordinalName :: "namedValue \<Rightarrow> int \<times> string" where
  "ordinalName a = (Ordinal a, Name a)"

subsection \<open>The loop of convertArg, cut off\<close>

text \<open>
  The loop of \<^verbatim>\<open>convertArg\<close> cut off after \<open>n\<close> calls of \<^verbatim>\<open>Value()\<close> that return a
  value: the same tests in the same order, and \<open>None\<close> when one more call returns a
  value.  It serves to say that the loop ends after finitely many calls.
\<close>

fun valuerLoopWithin ::
  "nat \<Rightarrow> (val \<Rightarrow> (exterr + val) option) \<Rightarrow> val \<Rightarrow> (exterr + val) option" where
  "valuerLoopWithin 0 vl arg =
     (if isNilArg arg then Some (Inr arg)
      else (case vl arg of
              None \<Rightarrow> Some (Inr arg)
            | Some (Inl err) \<Rightarrow> Some (Inl err)
            | Some (Inr arg') \<Rightarrow> None))"
| "valuerLoopWithin (Suc n) vl arg =
     (if isNilArg arg then Some (Inr arg)
      else (case vl arg of
              None \<Rightarrow> Some (Inr arg)
            | Some (Inl err) \<Rightarrow> Some (Inl err)
            | Some (Inr arg') \<Rightarrow> valuerLoopWithin n vl arg'))"

subsection \<open>Sample collaborators\<close>

text \<open>
  Collaborators to run the functions on concrete arguments.  \<open>Prim 7\<close> is a
  \<^verbatim>\<open>driver.Valuer\<close> whose \<^verbatim>\<open>Value()\<close> is \<open>Prim 8\<close>, the \<^verbatim>\<open>Value()\<close> of \<open>Prim 9\<close> fails,
  and \<open>Prim 66\<close> is a \<^verbatim>\<open>driver.Valuer\<close> whose \<^verbatim>\<open>Value()\<close> returns the receiver; no
  other value is a \<^verbatim>\<open>driver.Valuer\<close>.  A field of type 1 is a LOB field: it converts
  \<open>Prim n\<close> into a descriptor with \<open>n\<close> bytes to send; the other fields convert
  \<open>Prim n\<close> into \<open>Prim (n + 100)\<close>.  \<^verbatim>\<open>FetchNext\<close> sends the next chunk, and the
  data are the last when nothing is left to send.  \<^verbatim>\<open>MinString\<close> is not computed here:
  the sample answers with the name of the first field.
\<close>

definition sampleExt :: externals where
  "sampleExt =
     \<lparr>valuer = (\<lambda>v. case v of
                  Prim n \<Rightarrow>
                    (if n = 7 then Some (Inr (Prim 8))
                     else if n = 9 then Some (Inl (ExtErr ''no value''))
                     else if n = 66 then Some (Inr (Prim 66))
                     else None)
                | _ \<Rightarrow> None),
      Convert = (\<lambda>f v. case v of
                  Prim n \<Rightarrow>
                    (if pfType f = 1 then Inr (Lob (LobInDescr n)) else Inr (Prim (n + 100)))
                | NilIface \<Rightarrow> Inr NilIface
                | _ \<Rightarrow> Inl (ExtErr ''unsupported conversion'')),
      FetchNext = (\<lambda>n l. Inr (LobInDescr (lobState l - nat n))),
      IsLastData = (\<lambda>l. lobState l = 0),
      MinString = (\<lambda>fs s. case fs of [] \<Rightarrow> '''' | f # _ \<Rightarrow> pfName f)\<rparr>"

text \<open>An input field, a LOB input field, an output field and an input/output field.\<close>

definition inField :: "string \<Rightarrow> parameterField" where
  "inField n = \<lparr>pfName = n, pfIn = True, pfOut = False, pfType = 0\<rparr>"

definition lobField :: "string \<Rightarrow> parameterField" where
  "lobField n = \<lparr>pfName = n, pfIn = True, pfOut = False, pfType = 1\<rparr>"

definition outField :: "string \<Rightarrow> parameterField" where
  "outField n = \<lparr>pfName = n, pfIn = False, pfOut = True, pfType = 0\<rparr>"

definition inOutField :: "string \<Rightarrow> parameterField" where
  "inOutField n = \<lparr>pfName = n, pfIn = True, pfOut = True, pfType = 0\<rparr>"

text \<open>The argument with the given ordinal, name and value.\<close>

definition namedArg :: "int \<Rightarrow> string \<Rightarrow> val \<Rightarrow> namedValue" where
  "namedArg k n v = \<lparr>Name = n, Ordinal = k, Value = v\<rparr>"

section \<open>Properties\<close>

subsection \<open>isNilArg\<close>

text \<open>
  C10: the nil probe gives the same answer for a value, for a pointer to it and for a
  pointer to a pointer to it (and so through any number of pointers); it is true of
  \<^verbatim>\<open>nil\<close> and of a nil pointer behind any number of pointers, and false of every value
  that is neither nil nor a pointer, behind any number of pointers.
\<close>

theorem isNilArg_pointer_invariant:
  "isNilArg (Ptr x) = isNilArg x
   \<and> isNilArg (Ptr (Ptr x)) = isNilArg x
   \<and> isNilArg ((Ptr ^^ k) x) = isNilArg x
   \<and> isNilArg NilIface \<and> isNilArg ((Ptr ^^ k) NilIface) \<and> isNilArg ((Ptr ^^ k) NilPtr)
   \<and> isNilArg ((Ptr ^^ k) NilRows)
   \<and> \<not> isNilArg (Prim n) \<and> \<not> isNilArg (Out d i) \<and> \<not> isNilArg Rows \<and> \<not> isNilArg (Lob l)
   \<and> \<not> isNilArg ((Ptr ^^ k) (Prim n))"
proof -
  have peel: "isNilArg ((Ptr ^^ j) y) = isNilArg y" for j y
    by (induction j) simp_all
  show ?thesis
    by (simp add: peel)
qed

subsection \<open>reorderNVArgs\<close>

lemma shiftRight_nth:
  "j < length xs \<Longrightarrow> k < length xs \<Longrightarrow>
   shiftRight pos j xs ! k = (if pos < k \<and> k \<le> j then xs ! (k - 1) else xs ! k)"
proof (induction pos j xs rule: shiftRight.induct)
  case (1 pos j nvargs)
  show ?case
  proof (cases "j > pos")
    case True
    then show ?thesis
      using 1 by (subst shiftRight.simps) (auto simp: nth_list_update)
  next
    case False
    then show ?thesis by (subst shiftRight.simps) auto
  qed
qed

lemma rotate_nth:
  assumes "pos \<le> i" "i < length xs" "k < length xs"
  shows "(shiftRight pos i xs)[pos := xs ! i] ! k =
         (if k = pos then xs ! i else if pos < k \<and> k \<le> i then xs ! (k - 1) else xs ! k)"
  using assms by (simp add: nth_list_update shiftRight_nth)

lemma rotate_append:
  assumes "length pre = pos"
  shows "(shiftRight pos (pos + length mid) (pre @ mid @ x # rest))[pos := x] = pre @ x # mid @ rest"
proof -
  let ?xs = "pre @ mid @ x # rest"
  let ?i = "pos + length mid"
  have xi: "?xs ! ?i = x" using assms by (simp add: nth_append)
  have len: "?i < length ?xs" using assms by simp
  have "(shiftRight pos ?i ?xs)[pos := ?xs ! ?i] = pre @ x # mid @ rest"
  proof (rule nth_equalityI)
    show "length ((shiftRight pos ?i ?xs)[pos := ?xs ! ?i]) = length (pre @ x # mid @ rest)"
      by simp
  next
    fix k assume "k < length ((shiftRight pos ?i ?xs)[pos := ?xs ! ?i])"
    then have k: "k < length ?xs" by simp
    have eq: "(shiftRight pos ?i ?xs)[pos := ?xs ! ?i] ! k =
          (if k = pos then ?xs ! ?i else if pos < k \<and> k \<le> ?i then ?xs ! (k - 1) else ?xs ! k)"
      by (rule rotate_nth [OF _ len k]) simp
    consider "k < pos" | "k = pos" | "pos < k" "k \<le> ?i" | "?i < k" by linarith
    then show "(shiftRight pos ?i ?xs)[pos := ?xs ! ?i] ! k = (pre @ x # mid @ rest) ! k"
    proof cases
      case 1
      then show ?thesis unfolding eq using assms by (simp add: nth_append)
    next
      case 2
      then show ?thesis unfolding eq xi using assms by (simp add: nth_append)
    next
      case 3
      then obtain d where d: "k = pos + Suc d" "d < length mid"
        by (metis add_Suc_right less_iff_Suc_add add_le_cancel_left le_imp_less_Suc
            less_Suc_eq_le not_less_eq Suc_le_eq nat_add_left_cancel_less)
      show ?thesis unfolding eq using assms d by (simp add: nth_append)
    next
      case 4
      then obtain d where d: "k = pos + length mid + Suc d"
        using less_iff_Suc_add by auto
      show ?thesis unfolding eq using assms d by (simp add: nth_append)
    qed
  qed
  then show ?thesis unfolding xi .
qed

lemma reorderFrom_match:
  "i < length xs \<Longrightarrow> matchesName name (xs ! i) \<Longrightarrow>
   reorderFrom pos name i xs = reorderFrom pos name (Suc i) ((shiftRight pos i xs)[pos := xs ! i])"
  by (subst reorderFrom.simps) (auto simp add: matchesName_def Let_def)

lemma reorderFrom_no_match:
  "i < length xs \<Longrightarrow> \<not> matchesName name (xs ! i) \<Longrightarrow>
   reorderFrom pos name i xs = reorderFrom pos name (Suc i) xs"
  by (subst reorderFrom.simps) (auto simp add: matchesName_def)

lemma reorderFrom_end: "length xs \<le> i \<Longrightarrow> reorderFrom pos name i xs = xs"
  by (subst reorderFrom.simps) simp

text \<open>
  The invariant of the scan: with \<open>pre\<close> the entries before \<open>pos\<close>, \<open>mid\<close> the entries
  already scanned and \<open>rest\<close> the entries to scan, every match of \<open>rest\<close> is put in front
  of \<open>mid\<close> in turn, and every other entry of \<open>rest\<close> stays behind \<open>mid\<close>.
\<close>

lemma reorderFrom_append:
  "length pre = pos \<Longrightarrow>
   reorderFrom pos name (pos + length mid) (pre @ mid @ rest) =
   pre @ rev (filter (matchesName name) rest) @ mid @ filter (\<lambda>a. \<not> matchesName name a) rest"
proof (induction rest arbitrary: mid)
  case Nil
  then show ?case by (simp add: reorderFrom_end)
next
  case (Cons x rest)
  have nth: "(pre @ mid @ x # rest) ! (pos + length mid) = x"
    using Cons.prems by (simp add: nth_append)
  have len: "pos + length mid < length (pre @ mid @ x # rest)"
    using Cons.prems by simp
  show ?case
  proof (cases "matchesName name x")
    case True
    have "reorderFrom pos name (pos + length mid) (pre @ mid @ x # rest) =
          reorderFrom pos name (pos + length (x # mid)) (pre @ (x # mid) @ rest)"
      using reorderFrom_match [OF len, of name pos] True Cons.prems
      unfolding nth by (simp add: rotate_append)
    then show ?thesis using True Cons.IH [OF Cons.prems, of "x # mid"] by simp
  next
    case False
    have "reorderFrom pos name (pos + length mid) (pre @ mid @ x # rest) =
          reorderFrom pos name (pos + length (mid @ [x])) (pre @ (mid @ [x]) @ rest)"
      using reorderFrom_no_match [OF len, of name pos] False
      unfolding nth by simp
    then show ?thesis using False Cons.IH [OF Cons.prems, of "mid @ [x]"] by simp
  qed
qed

lemma reorderNVArgs_eq:
  "reorderNVArgs pos name xs =
   take pos xs @ rev (filter (matchesName name) (drop pos xs))
     @ filter (\<lambda>a. \<not> matchesName name a) (drop pos xs)"
proof (cases "pos \<le> length xs")
  case True
  then have "length (take pos xs) = pos" by simp
  from reorderFrom_append [OF this, of name "[]" "drop pos xs"]
  show ?thesis by (simp add: reorderNVArgs_def)
next
  case False
  then show ?thesis
    by (simp add: reorderNVArgs_def reorderFrom_end)
qed

lemma length_reorderNVArgs [simp]: "length (reorderNVArgs pos name xs) = length xs"
proof -
  have "length (filter (matchesName name) (drop pos xs))
        + length (filter (\<lambda>a. \<not> matchesName name a) (drop pos xs)) = length (drop pos xs)"
    by (rule sum_length_filter_compl)
  then show ?thesis by (simp add: reorderNVArgs_eq)
qed

lemma mset_reorderNVArgs [simp]: "mset (reorderNVArgs pos name xs) = mset xs"
proof -
  have "mset (take pos xs) + mset (drop pos xs) = mset xs"
    by (metis append_take_drop_id mset_append)
  then show ?thesis by (simp add: reorderNVArgs_eq)
qed

lemma filter_single_remove1:
  "filter P ys = [x] \<Longrightarrow> filter (\<lambda>a. \<not> P a) ys = remove1 x ys"
proof (induction ys)
  case Nil
  then show ?case by simp
next
  case (Cons y ys)
  show ?case
  proof (cases "P y")
    case True
    with Cons.prems have "y = x" and "filter P ys = []" by simp_all
    then have "filter (\<lambda>a. \<not> P a) ys = ys"
      by (simp add: filter_empty_conv)
    with True \<open>y = x\<close> show ?thesis by simp
  next
    case False
    with Cons.prems have single: "filter P ys = [x]" by simp
    then have "x \<in> set (filter P ys)" by simp
    then have "P x" by simp
    with False have "x \<noteq> y" by auto
    with False Cons.IH [OF single] show ?thesis by simp
  qed
qed

text \<open>
  C4 (as the code has it): \<^verbatim>\<open>reorderNVArgs\<close> leaves the entries before \<open>pos\<close> where they
  are and moves every entry from \<open>pos\<close> on whose name is not empty and equals \<open>name\<close> to
  position \<open>pos\<close>, one after the other as the scan meets them: the matches come first,
  the last one met at \<open>pos\<close>, and the other entries follow in their original order.  It
  changes nothing when no entry matches.  When exactly one entry matches, it is moved to
  \<open>pos\<close> and the other entries keep their order.
\<close>

theorem reorderNVArgs_moves_every_match:
  "reorderNVArgs pos name nvargs =
     take pos nvargs @ rev (filter (matchesName name) (drop pos nvargs))
       @ filter (\<lambda>a. \<not> matchesName name a) (drop pos nvargs)
   \<and> (filter (matchesName name) (drop pos nvargs) = [] \<longrightarrow>
        reorderNVArgs pos name nvargs = nvargs)
   \<and> (filter (matchesName name) (drop pos nvargs) = [x] \<longrightarrow>
        reorderNVArgs pos name nvargs = take pos nvargs @ x # remove1 x (drop pos nvargs))"
proof (intro conjI impI)
  show "reorderNVArgs pos name nvargs =
     take pos nvargs @ rev (filter (matchesName name) (drop pos nvargs))
       @ filter (\<lambda>a. \<not> matchesName name a) (drop pos nvargs)"
    by (rule reorderNVArgs_eq)
next
  assume none: "filter (matchesName name) (drop pos nvargs) = []"
  then have "filter (\<lambda>a. \<not> matchesName name a) (drop pos nvargs) = drop pos nvargs"
    by (simp add: filter_empty_conv)
  with none show "reorderNVArgs pos name nvargs = nvargs"
    by (simp add: reorderNVArgs_eq)
next
  assume single: "filter (matchesName name) (drop pos nvargs) = [x]"
  from filter_single_remove1 [OF this] single
  show "reorderNVArgs pos name nvargs = take pos nvargs @ x # remove1 x (drop pos nvargs)"
    by (simp add: reorderNVArgs_eq)
qed

theorem reorderNVArgs_moves_every_match_witness:
  "reorderNVArgs 1 ''B''
     [namedArg 1 ''A'' (Prim 1), namedArg 2 ''C'' (Prim 3), namedArg 3 ''B'' (Prim 2)] =
     [namedArg 1 ''A'' (Prim 1), namedArg 3 ''B'' (Prim 2), namedArg 2 ''C'' (Prim 3)]
   \<and> reorderNVArgs 1 ''D''
     [namedArg 1 ''A'' (Prim 1), namedArg 2 ''C'' (Prim 3), namedArg 3 ''B'' (Prim 2)] =
     [namedArg 1 ''A'' (Prim 1), namedArg 2 ''C'' (Prim 3), namedArg 3 ''B'' (Prim 2)]"
proof -
  let ?xs = "[namedArg 1 ''A'' (Prim 1), namedArg 2 ''C'' (Prim 3), namedArg 3 ''B'' (Prim 2)]"
  have single: "filter (matchesName ''B'') (drop 1 ?xs) = [namedArg 3 ''B'' (Prim 2)]"
    by (simp add: matchesName_def namedArg_def)
  have none: "filter (matchesName ''D'') (drop 1 ?xs) = []"
    by (simp add: matchesName_def namedArg_def)
  have neq: "namedArg 3 ''B'' (Prim 2) \<noteq> namedArg 2 ''C'' (Prim 3)"
    by (simp add: namedArg_def)
  from reorderNVArgs_moves_every_match [of 1 "''B''" ?xs "namedArg 3 ''B'' (Prim 2)"] single
  have "reorderNVArgs 1 ''B'' ?xs =
      take 1 ?xs @ namedArg 3 ''B'' (Prim 2) # remove1 (namedArg 3 ''B'' (Prim 2)) (drop 1 ?xs)"
    by blast
  with neq have first: "reorderNVArgs 1 ''B'' ?xs =
      [namedArg 1 ''A'' (Prim 1), namedArg 3 ''B'' (Prim 2), namedArg 2 ''C'' (Prim 3)]"
    by simp
  from reorderNVArgs_moves_every_match [of 1 "''D''" ?xs] none
  have "reorderNVArgs 1 ''D'' ?xs = ?xs" by blast
  with first show ?thesis by simp
qed

text \<open>
  Two entries named \<open>T\<close>, the first of them at position 0 already: the call is not a
  no-op, it puts the second match at position 0 and the first match behind it.
\<close>

theorem reorderNVArgs_second_match_counterexample:
  "reorderNVArgs 0 ''T''
     [namedArg 1 ''T'' (Prim 1), namedArg 2 ''X'' (Prim 2), namedArg 3 ''T'' (Prim 3)] =
     [namedArg 3 ''T'' (Prim 3), namedArg 1 ''T'' (Prim 1), namedArg 2 ''X'' (Prim 2)]"
  by (simp add: reorderNVArgs_eq matchesName_def namedArg_def)

subsection \<open>The loop of convertArg\<close>

lemma within_imp_loop:
  "valuerLoopWithin n vl arg = Some r \<Longrightarrow> valuerLoop vl arg = Some r"
proof (induction n arbitrary: arg)
  case 0
  then show ?case
    by (subst valuerLoop.simps) (auto split: if_splits option.splits sum.splits)
next
  case (Suc n)
  then show ?case
    by (subst valuerLoop.simps) (auto split: if_splits option.splits sum.splits)
qed

lemma loop_imp_within:
  assumes "valuerLoop vl arg = Some r"
  shows "\<exists>n. valuerLoopWithin n vl arg = Some r"
proof (rule valuerLoop.raw_induct
    [where P = "\<lambda>vl arg r. \<exists>n. valuerLoopWithin n vl arg = Some r", OF _ assms])
  fix loop :: "(val \<Rightarrow> (exterr + val) option) \<Rightarrow> val \<Rightarrow> (exterr + val) option"
  fix vl arg r
  assume IH: "\<And>vl arg y. loop vl arg = Some y \<Longrightarrow> \<exists>n. valuerLoopWithin n vl arg = Some y"
    and body: "(if isNilArg arg then Some (Inr arg)
      else case vl arg of None \<Rightarrow> Some (Inr arg)
           | Some (Inl err) \<Rightarrow> Some (Inl err)
           | Some (Inr arg') \<Rightarrow> loop vl arg') = Some r"
  show "\<exists>n. valuerLoopWithin n vl arg = Some r"
  proof (cases "isNilArg arg")
    case True
    with body have "valuerLoopWithin 0 vl arg = Some r" by simp
    then show ?thesis ..
  next
    case False
    show ?thesis
    proof (cases "vl arg")
      case None
      with False body have "valuerLoopWithin 0 vl arg = Some r" by simp
      then show ?thesis ..
    next
      case (Some a)
      show ?thesis
      proof (cases a)
        case (Inl e)
        with False Some body have "valuerLoopWithin 0 vl arg = Some r" by auto
        then show ?thesis ..
      next
        case (Inr arg')
        with False Some body have "loop vl arg' = Some r" by simp
        from IH [OF this] obtain n where "valuerLoopWithin n vl arg' = Some r" ..
        with False Some Inr have "valuerLoopWithin (Suc n) vl arg = Some r" by simp
        then show ?thesis ..
      qed
    qed
  qed
qed

lemma within_result_stops:
  "valuerLoopWithin n vl arg = Some (Inr v) \<Longrightarrow> isNilArg v \<or> vl v = None"
  by (induction n arbitrary: arg) (auto split: if_splits option.splits sum.splits)

lemma within_error_from_valuer:
  "valuerLoopWithin n vl arg = Some (Inl e) \<Longrightarrow> \<exists>v. \<not> isNilArg v \<and> vl v = Some (Inl e)"
  by (induction n arbitrary: arg) (auto split: if_splits option.splits sum.splits)

lemma self_valuer_within:
  "vl v = Some (Inr v) \<Longrightarrow> \<not> isNilArg v \<Longrightarrow> valuerLoopWithin n vl v = None"
  by (induction n) simp_all

lemma self_valuer_diverges:
  assumes "vl v = Some (Inr v)" "\<not> isNilArg v"
  shows "valuerLoop vl v = None"
proof (cases "valuerLoop vl v")
  case None
  then show ?thesis .
next
  case (Some r)
  from loop_imp_within [OF this] obtain n where "valuerLoopWithin n vl v = Some r" ..
  moreover have "valuerLoopWithin n vl v = None"
    using assms by (rule self_valuer_within)
  ultimately show ?thesis by simp
qed

text \<open>
  C8 (as the code has it): the loop of \<^verbatim>\<open>convertArg\<close> returns a result exactly when
  the chain of \<^verbatim>\<open>Value()\<close> results that starts at the argument reaches that result
  after finitely many calls.  A value it returns is nil for \<^verbatim>\<open>isNilArg\<close> or is no
  \<^verbatim>\<open>driver.Valuer\<close>; an error it returns is the error of a \<^verbatim>\<open>Value()\<close> call on a value
  that is not nil, and \<^verbatim>\<open>convertArg\<close> returns that error unchanged.  The value the
  loop ends on is the one \<^verbatim>\<open>convertArg\<close> passes to the field's \<^verbatim>\<open>Convert\<close>, whose result
  it returns.  Nothing is said of a chain that never ends: there the loop does not
  return.
\<close>

theorem valuerLoop_returns_iff_chain_ends:
  "(valuerLoop vl arg = Some r \<longleftrightarrow> (\<exists>n. valuerLoopWithin n vl arg = Some r))
   \<and> (valuerLoop vl arg = Some (Inr v) \<longrightarrow> isNilArg v \<or> vl v = None)
   \<and> (valuerLoop vl arg = Some (Inl e) \<longrightarrow> (\<exists>v'. \<not> isNilArg v' \<and> vl v' = Some (Inl e)))
   \<and> (valuerLoop (valuer ext) arg = Some (Inl e) \<longrightarrow>
        convertArg ext field arg = Some (Inl e))
   \<and> (valuerLoop (valuer ext) arg = Some (Inr v) \<longrightarrow>
        convertArg ext field arg = Some (Convert ext field v))"
proof (intro conjI impI)
  show "valuerLoop vl arg = Some r \<longleftrightarrow> (\<exists>n. valuerLoopWithin n vl arg = Some r)"
  proof
    assume "valuerLoop vl arg = Some r"
    then show "\<exists>n. valuerLoopWithin n vl arg = Some r" by (rule loop_imp_within)
  next
    assume "\<exists>n. valuerLoopWithin n vl arg = Some r"
    then obtain n where "valuerLoopWithin n vl arg = Some r" ..
    then show "valuerLoop vl arg = Some r" by (rule within_imp_loop)
  qed
next
  assume "valuerLoop vl arg = Some (Inr v)"
  from loop_imp_within [OF this] obtain n where "valuerLoopWithin n vl arg = Some (Inr v)" ..
  then show "isNilArg v \<or> vl v = None" by (rule within_result_stops)
next
  assume "valuerLoop vl arg = Some (Inl e)"
  from loop_imp_within [OF this] obtain n where "valuerLoopWithin n vl arg = Some (Inl e)" ..
  then show "\<exists>v'. \<not> isNilArg v' \<and> vl v' = Some (Inl e)" by (rule within_error_from_valuer)
next
  assume "valuerLoop (valuer ext) arg = Some (Inl e)"
  then show "convertArg ext field arg = Some (Inl e)" by (simp add: convertArg_def)
next
  assume "valuerLoop (valuer ext) arg = Some (Inr v)"
  then show "convertArg ext field arg = Some (Convert ext field v)"
    by (simp add: convertArg_def)
qed

theorem valuerLoop_returns_iff_chain_ends_witness:
  "valuerLoopWithin 1 (valuer sampleExt) (Prim 7) = Some (Inr (Prim 8))
   \<and> valuerLoop (valuer sampleExt) (Prim 7) = Some (Inr (Prim 8))
   \<and> valuer sampleExt (Prim 8) = None
   \<and> valuerLoop (valuer sampleExt) (Prim 9) = Some (Inl (ExtErr ''no value''))
   \<and> valuer sampleExt (Prim 9) = Some (Inl (ExtErr ''no value''))
   \<and> convertArg sampleExt (inField ''A'') (Prim 9) = Some (Inl (ExtErr ''no value''))
   \<and> convertArg sampleExt (inField ''A'') (Prim 7) = Some (Inr (Prim 108))"
proof -
  have w7: "valuerLoopWithin 1 (valuer sampleExt) (Prim 7) = Some (Inr (Prim 8))"
    by (simp add: sampleExt_def)
  have l7: "valuerLoop (valuer sampleExt) (Prim 7) = Some (Inr (Prim 8))"
    by (rule valuerLoop_returns_iff_chain_ends [THEN conjunct1, THEN iffD2, OF exI, OF w7])
  have w9: "valuerLoopWithin 0 (valuer sampleExt) (Prim 9) = Some (Inl (ExtErr ''no value''))"
    by (simp add: sampleExt_def)
  have l9: "valuerLoop (valuer sampleExt) (Prim 9) = Some (Inl (ExtErr ''no value''))"
    by (rule valuerLoop_returns_iff_chain_ends [THEN conjunct1, THEN iffD2, OF exI, OF w9])
  have c9: "convertArg sampleExt (inField ''A'') (Prim 9) = Some (Inl (ExtErr ''no value''))"
    by (rule valuerLoop_returns_iff_chain_ends
          [THEN conjunct2, THEN conjunct2, THEN conjunct2, THEN conjunct1, THEN mp, OF l9])
  have "convertArg sampleExt (inField ''A'') (Prim 7) =
      Some (Convert sampleExt (inField ''A'') (Prim 8))"
    by (rule valuerLoop_returns_iff_chain_ends
          [THEN conjunct2, THEN conjunct2, THEN conjunct2, THEN conjunct2, THEN mp, OF l7])
  then have c7: "convertArg sampleExt (inField ''A'') (Prim 7) = Some (Inr (Prim 108))"
    by (simp add: sampleExt_def inField_def)
  have v8: "valuer sampleExt (Prim 8) = None"
    by (simp add: sampleExt_def)
  have v9: "valuer sampleExt (Prim 9) = Some (Inl (ExtErr ''no value''))"
    by (simp add: sampleExt_def)
  from w7 l7 v8 l9 v9 c9 c7 show ?thesis by (intro conjI)
qed

text \<open>
  A \<^verbatim>\<open>driver.Valuer\<close> whose \<^verbatim>\<open>Value()\<close> returns the receiver: the loop never ends, and
  neither does \<^verbatim>\<open>convertArg\<close>.
\<close>

theorem valuerLoop_self_valuer_counterexample:
  "valuer sampleExt (Prim 66) = Some (Inr (Prim 66)) \<and> \<not> isNilArg (Prim 66)
   \<and> valuerLoop (valuer sampleExt) (Prim 66) = None
   \<and> convertArg sampleExt (inField ''A'') (Prim 66) = None"
proof -
  have v: "valuer sampleExt (Prim 66) = Some (Inr (Prim 66))"
    by (simp add: sampleExt_def)
  then have l: "valuerLoop (valuer sampleExt) (Prim 66) = None"
    by (rule self_valuer_diverges) simp
  then have c: "convertArg sampleExt (inField ''A'') (Prim 66) = None"
    unfolding convertArg_def by simp
  have n: "\<not> isNilArg (Prim 66)" by simp
  from v n l c show ?thesis by (intro conjI)
qed

subsection \<open>convertExecArgs\<close>

lemma execArg_Inr:
  assumes "execArg ext sz field nvarg h = Some (Inr (nvarg', h'))"
  shows "Name nvarg' = Name nvarg" and "Ordinal nvarg' = Ordinal nvarg"
    and "h' = (h \<or> firstFetchNotLast ext sz field nvarg)"
  using assms
  by (auto simp: execArg_def firstFetchNotLast_def split: if_splits option.splits sum.splits)

lemma execArg_no_panic:
  "execArg ext sz field nvarg h \<noteq> Some (Inl PanicIndexOutOfRange)"
  "execArg ext sz field nvarg h \<noteq> Some (Inl PanicDivideByZero)"
  by (auto simp: execArg_def split: if_splits option.splits sum.splits)

lemma convertArg_total:
  "valuerLoop (valuer ext) v \<noteq> None \<Longrightarrow> convertArg ext field v \<noteq> None"
  by (auto simp: convertArg_def split: option.splits sum.splits)

lemma execRow_Inr:
  "execRow ext sz base j fs nvargs h = Some (Inr (nvargs', h')) \<Longrightarrow>
   length nvargs' = length nvargs
   \<and> map Name nvargs' = map Name nvargs
   \<and> map Ordinal nvargs' = map Ordinal nvargs
   \<and> (\<forall>k. k < base + j \<or> base + j + length fs \<le> k \<longrightarrow> nvargs' ! k = nvargs ! k)
   \<and> h' = (h \<or> (\<exists>k<length fs. firstFetchNotLast ext sz (fs ! k) (nvargs ! (base + j + k))))"
proof (induction fs arbitrary: j nvargs h)
  case Nil
  then show ?case by simp
next
  case (Cons f fs)
  from Cons.prems have inr: "base + j < length nvargs"
    by (simp split: if_splits)
  with Cons.prems obtain a h1 where
    arg: "execArg ext sz f (nvargs ! (base + j)) h = Some (Inr (a, h1))"
    and rest: "execRow ext sz base (Suc j) fs (nvargs[base + j := a]) h1 = Some (Inr (nvargs', h'))"
    by (auto split: option.splits sum.splits)
  note A = execArg_Inr [OF arg]
  note IH = Cons.IH [OF rest]
  from IH have len: "length nvargs' = length nvargs" by simp
  from IH [THEN conjunct2, THEN conjunct1]
  have names: "map Name nvargs' = map Name (nvargs[base + j := a])" .
  from IH [THEN conjunct2, THEN conjunct2, THEN conjunct1]
  have ords: "map Ordinal nvargs' = map Ordinal (nvargs[base + j := a])" .
  from IH [THEN conjunct2, THEN conjunct2, THEN conjunct2, THEN conjunct1]
  have frame: "\<forall>k. k < base + Suc j \<or> base + Suc j + length fs \<le> k \<longrightarrow>
                 nvargs' ! k = nvargs[base + j := a] ! k" .
  from IH [THEN conjunct2, THEN conjunct2, THEN conjunct2, THEN conjunct2]
  have flag: "h' = (h1 \<or> (\<exists>k<length fs.
                 firstFetchNotLast ext sz (fs ! k) (nvargs[base + j := a] ! (base + Suc j + k))))" .
  have names': "map Name (nvargs[base + j := a]) = map Name nvargs"
    using A(1) inr by (simp add: map_update list_update_same_conv)
  have ords': "map Ordinal (nvargs[base + j := a]) = map Ordinal nvargs"
    using A(2) inr by (simp add: map_update list_update_same_conv)
  have fr: "\<forall>k. k < base + j \<or> base + j + length (f # fs) \<le> k \<longrightarrow> nvargs' ! k = nvargs ! k"
    using frame by simp
  have "(\<exists>k<length fs. firstFetchNotLast ext sz (fs ! k) (nvargs[base + j := a] ! (base + Suc j + k)))
        = (\<exists>k<length fs. firstFetchNotLast ext sz (fs ! k) (nvargs ! (base + Suc j + k)))"
    by simp
  with flag A(3) have "h' = (h \<or> firstFetchNotLast ext sz f (nvargs ! (base + j))
        \<or> (\<exists>k<length fs. firstFetchNotLast ext sz (fs ! k) (nvargs ! (base + j + Suc k))))"
    by simp
  also have "\<dots> = (h \<or> (\<exists>k<length (f # fs).
        firstFetchNotLast ext sz ((f # fs) ! k) (nvargs ! (base + j + k))))"
    by (auto simp: less_Suc_eq_0_disj)
  finally have fl: "h' = (h \<or> (\<exists>k<length (f # fs).
        firstFetchNotLast ext sz ((f # fs) ! k) (nvargs ! (base + j + k))))" .
  from len names names' ords ords' fr fl show ?case by simp
qed

lemma execRow_no_panic:
  "base + j + length fs \<le> length nvargs \<Longrightarrow>
   execRow ext sz base j fs nvargs h \<noteq> Some (Inl PanicIndexOutOfRange)
   \<and> execRow ext sz base j fs nvargs h \<noteq> Some (Inl PanicDivideByZero)"
proof (induction fs arbitrary: j nvargs h)
  case Nil
  then show ?case by simp
next
  case (Cons f fs)
  then show ?case
    using execArg_no_panic [of ext sz f "nvargs ! (base + j)" h]
    by (auto split: option.splits sum.splits)
qed

lemma rowOwesLobData_iff:
  "rowOwesLobData ext sz F nvargs i \<longleftrightarrow>
   (\<exists>j<length F. firstFetchNotLast ext sz (F ! j) (nvargs ! (i * length F + j)))"
  by (auto simp: rowOwesLobData_def list_ex_iff)

lemma rowOwesLobData_cong:
  "(\<And>j. j < length F \<Longrightarrow> a ! (i * length F + j) = b ! (i * length F + j)) \<Longrightarrow>
   rowOwesLobData ext sz F a i = rowOwesLobData ext sz F b i"
  by (auto simp: rowOwesLobData_iff)

lemma execRows_end:
  "\<not> i < r \<Longrightarrow> execRows ext sz F n r i nvargs recs = Some (Inr (nvargs, recs))"
  by (subst execRows.simps) simp

lemma execRows_step:
  "i < r \<Longrightarrow> execRow ext sz (i * n) 0 F nvargs False = Some (Inr (nvargs1, h)) \<Longrightarrow>
   execRows ext sz F n r i nvargs recs =
   execRows ext sz F n r (Suc i) nvargs1 (if h \<or> i = r - 1 then recs @ [i] else recs)"
  by (subst execRows.simps) simp

lemma execRows_Inr_step:
  assumes "i < r" and "execRows ext sz F n r i nvargs recs = Some (Inr res)"
  obtains nvargs1 h where "execRow ext sz (i * n) 0 F nvargs False = Some (Inr (nvargs1, h))"
  using assms
  by (subst (asm) execRows.simps) (auto split: option.splits sum.splits)

lemma execRows_Inr:
  "execRows ext sz F (length F) r i nvargs recs = Some (Inr (nvargs', recs')) \<Longrightarrow>
   length nvargs' = length nvargs
   \<and> map Name nvargs' = map Name nvargs
   \<and> map Ordinal nvargs' = map Ordinal nvargs
   \<and> (\<forall>k<i * length F. nvargs' ! k = nvargs ! k)
   \<and> recs' = recs @ filter (\<lambda>k. rowOwesLobData ext sz F nvargs k \<or> k = r - 1) [i..<r]"
proof (induction "r - i" arbitrary: i nvargs recs)
  case 0
  then have "\<not> i < r" by simp
  with "0.prems" show ?case by (simp add: execRows_end)
next
  case (Suc d)
  then have ir: "i < r" by simp
  from execRows_Inr_step [OF ir Suc.prems] obtain nvargs1 h where
    row: "execRow ext sz (i * length F) 0 F nvargs False = Some (Inr (nvargs1, h))" .
  let ?recs1 = "if h \<or> i = r - 1 then recs @ [i] else recs"
  from Suc.prems execRows_step [OF ir row]
  have rest: "execRows ext sz F (length F) r (Suc i) nvargs1 ?recs1 = Some (Inr (nvargs', recs'))"
    by simp
  from Suc.hyps(2) have d: "d = r - Suc i" by simp
  note IH = Suc.hyps(1) [OF d rest]
  note R = execRow_Inr [OF row]
  from R have len1: "length nvargs1 = length nvargs" by simp
  from R [THEN conjunct2, THEN conjunct1] have names1: "map Name nvargs1 = map Name nvargs" .
  from R [THEN conjunct2, THEN conjunct2, THEN conjunct1]
  have ords1: "map Ordinal nvargs1 = map Ordinal nvargs" .
  from R [THEN conjunct2, THEN conjunct2, THEN conjunct2, THEN conjunct1]
  have frame1: "\<And>k. k < i * length F \<or> i * length F + length F \<le> k \<Longrightarrow> nvargs1 ! k = nvargs ! k"
    by auto
  from R [THEN conjunct2, THEN conjunct2, THEN conjunct2, THEN conjunct2]
  have h: "h = rowOwesLobData ext sz F nvargs i"
    by (simp add: rowOwesLobData_iff)
  from IH have len: "length nvargs' = length nvargs1" by simp
  from IH [THEN conjunct2, THEN conjunct1] have names: "map Name nvargs' = map Name nvargs1" .
  from IH [THEN conjunct2, THEN conjunct2, THEN conjunct1]
  have ords: "map Ordinal nvargs' = map Ordinal nvargs1" .
  from IH [THEN conjunct2, THEN conjunct2, THEN conjunct2, THEN conjunct1]
  have frame: "\<And>k. k < Suc i * length F \<Longrightarrow> nvargs' ! k = nvargs1 ! k"
    by auto
  from IH [THEN conjunct2, THEN conjunct2, THEN conjunct2, THEN conjunct2]
  have recs': "recs' = ?recs1 @
      filter (\<lambda>k. rowOwesLobData ext sz F nvargs1 k \<or> k = r - 1) [Suc i..<r]" .
  have later: "rowOwesLobData ext sz F nvargs1 k = rowOwesLobData ext sz F nvargs k"
    if "Suc i \<le> k" for k
  proof (rule rowOwesLobData_cong)
    fix j assume "j < length F"
    from that have "Suc i * length F \<le> k * length F" by (rule mult_le_mono1)
    then have "i * length F + length F \<le> k * length F + j" by simp
    then show "nvargs1 ! (k * length F + j) = nvargs ! (k * length F + j)"
      by (rule frame1 [OF disjI2])
  qed
  have "filter (\<lambda>k. rowOwesLobData ext sz F nvargs1 k \<or> k = r - 1) [Suc i..<r] =
        filter (\<lambda>k. rowOwesLobData ext sz F nvargs k \<or> k = r - 1) [Suc i..<r]"
    by (rule filter_cong) (simp_all add: later)
  with recs' h ir have final: "recs' = recs @
      filter (\<lambda>k. rowOwesLobData ext sz F nvargs k \<or> k = r - 1) [i..<r]"
    by (simp add: upt_conv_Cons)
  have fr: "\<forall>k<i * length F. nvargs' ! k = nvargs ! k"
  proof (intro allI impI)
    fix k assume k: "k < i * length F"
    then have "k < Suc i * length F" by simp
    then have "nvargs' ! k = nvargs1 ! k" by (rule frame)
    also from k have "\<dots> = nvargs ! k" by (rule frame1 [OF disjI1])
    finally show "nvargs' ! k = nvargs ! k" .
  qed
  from len len1 names names1 ords ords1 fr final show ?case by simp
qed

lemma execRows_no_panic:
  "r * length F \<le> length nvargs \<Longrightarrow>
   execRows ext sz F (length F) r i nvargs recs \<noteq> Some (Inl PanicIndexOutOfRange)
   \<and> execRows ext sz F (length F) r i nvargs recs \<noteq> Some (Inl PanicDivideByZero)"
proof (induction "r - i" arbitrary: i nvargs recs)
  case 0
  then have "\<not> i < r" by simp
  then show ?case by (simp add: execRows_end)
next
  case (Suc d)
  then have ir: "i < r" by simp
  then have "Suc i \<le> r" by simp
  then have "Suc i * length F \<le> r * length F" by (rule mult_le_mono1)
  with Suc.prems have bound: "i * length F + 0 + length F \<le> length nvargs" by simp
  note NP = execRow_no_panic [OF bound, of ext sz False]
  from Suc.hyps(2) have d: "d = r - Suc i" by simp
  show ?case
  proof (cases "execRow ext sz (i * length F) 0 F nvargs False")
    case None
    with ir show ?thesis by (subst (1 2) execRows.simps) simp
  next
    case (Some res)
    show ?thesis
    proof (cases res)
      case (Inl e)
      with Some ir NP show ?thesis by (subst (1 2) execRows.simps) simp
    next
      case (Inr p)
      obtain nvargs1 h where p: "p = (nvargs1, h)" by (cases p)
      with Some Inr have row: "execRow ext sz (i * length F) 0 F nvargs False = Some (Inr (nvargs1, h))"
        by simp
      from execRow_Inr [OF row] Suc.prems have "r * length F \<le> length nvargs1" by simp
      from Suc.hyps(1) [OF d this] execRows_step [OF ir row]
      show ?thesis by simp
    qed
  qed
qed

lemma execArg_returns:
  "valuerLoop (valuer ext) (Value nvarg) \<noteq> None \<Longrightarrow> execArg ext sz field nvarg h \<noteq> None"
  using convertArg_total [of ext "Value nvarg" field]
  by (auto simp: execArg_def split: if_splits option.splits sum.splits)

lemma execRow_returns:
  "\<forall>k<length fs. base + j + k < length nvargs \<longrightarrow>
       valuerLoop (valuer ext) (Value (nvargs ! (base + j + k))) \<noteq> None \<Longrightarrow>
   execRow ext sz base j fs nvargs h \<noteq> None"
proof (induction fs arbitrary: j nvargs h)
  case Nil
  then show ?case by simp
next
  case (Cons f fs)
  show ?case
  proof (cases "base + j < length nvargs")
    case False
    then show ?thesis by simp
  next
    case True
    with Cons.prems have "valuerLoop (valuer ext) (Value (nvargs ! (base + j))) \<noteq> None"
      by force
    then have arg: "execArg ext sz f (nvargs ! (base + j)) h \<noteq> None"
      by (rule execArg_returns)
    have rest: "execRow ext sz base (Suc j) fs (nvargs[base + j := a]) h1 \<noteq> None" for a h1
    proof (rule Cons.IH, intro allI impI)
      fix k assume k: "k < length fs"
        and "base + Suc j + k < length (nvargs[base + j := a])"
      then have "base + j + Suc k < length nvargs" by simp
      moreover from k have "Suc k < length (f # fs)" by simp
      ultimately have "valuerLoop (valuer ext) (Value (nvargs ! (base + j + Suc k))) \<noteq> None"
        using Cons.prems by blast
      then show "valuerLoop (valuer ext) (Value (nvargs[base + j := a] ! (base + Suc j + k))) \<noteq> None"
        by simp
    qed
    from True arg rest show ?thesis
      by (auto split: option.splits sum.splits)
  qed
qed

lemma execRows_returns:
  "\<forall>k. i * length F \<le> k \<and> k < length nvargs \<longrightarrow>
       valuerLoop (valuer ext) (Value (nvargs ! k)) \<noteq> None \<Longrightarrow>
   execRows ext sz F (length F) r i nvargs recs \<noteq> None"
proof (induction "r - i" arbitrary: i nvargs recs)
  case 0
  then have "\<not> i < r" by simp
  then show ?case by (simp add: execRows_end)
next
  case (Suc d)
  then have ir: "i < r" by simp
  from Suc.hyps(2) have d: "d = r - Suc i" by simp
  have row: "execRow ext sz (i * length F) 0 F nvargs False \<noteq> None"
  proof (rule execRow_returns, intro allI impI)
    fix k assume "k < length F" and "i * length F + 0 + k < length nvargs"
    then have "i * length F \<le> i * length F + k \<and> i * length F + k < length nvargs" by simp
    with Suc.prems have "valuerLoop (valuer ext) (Value (nvargs ! (i * length F + k))) \<noteq> None"
      by blast
    then show "valuerLoop (valuer ext) (Value (nvargs ! (i * length F + 0 + k))) \<noteq> None"
      by simp
  qed
  then obtain res where Some: "execRow ext sz (i * length F) 0 F nvargs False = Some res"
    by blast
  show ?case
  proof (cases res)
    case (Inl e)
    with Some ir show ?thesis by (subst execRows.simps) simp
  next
    case (Inr p)
    obtain nvargs1 h where p: "p = (nvargs1, h)" by (cases p)
    with Some Inr have r1: "execRow ext sz (i * length F) 0 F nvargs False = Some (Inr (nvargs1, h))"
      by simp
    note R = execRow_Inr [OF r1]
    from R have len1: "length nvargs1 = length nvargs" by simp
    from R [THEN conjunct2, THEN conjunct2, THEN conjunct2, THEN conjunct1]
    have frame1: "\<And>k. i * length F + length F \<le> k \<Longrightarrow> nvargs1 ! k = nvargs ! k"
      by auto
    have "\<forall>k. Suc i * length F \<le> k \<and> k < length nvargs1 \<longrightarrow>
            valuerLoop (valuer ext) (Value (nvargs1 ! k)) \<noteq> None"
    proof (intro allI impI)
      fix k assume k: "Suc i * length F \<le> k \<and> k < length nvargs1"
      then have ge: "i * length F + length F \<le> k" by simp
      then have "i * length F \<le> k" by simp
      with k len1 Suc.prems have "valuerLoop (valuer ext) (Value (nvargs ! k)) \<noteq> None" by simp
      with frame1 [OF ge] show "valuerLoop (valuer ext) (Value (nvargs1 ! k)) \<noteq> None" by simp
    qed
    from Suc.hyps(1) [OF d this] execRows_step [OF ir r1]
    show ?thesis by simp
  qed
qed

lemma convertExecArgs_returns:
  assumes "flds \<noteq> []" and "\<forall>a\<in>set nvargs. valuerLoop (valuer ext) (Value a) \<noteq> None"
  shows "convertExecArgs ext flds nvargs sz \<noteq> None"
proof -
  have "\<forall>k. 0 * length flds \<le> k \<and> k < length nvargs \<longrightarrow>
          valuerLoop (valuer ext) (Value (nvargs ! k)) \<noteq> None"
    using assms(2) by simp
  from execRows_returns [OF this] assms(1) show ?thesis
    by (simp add: convertExecArgs_def Let_def)
qed

lemma convertExecArgs_Inr:
  assumes "convertExecArgs ext flds nvargs sz = Some (Inr (nvargs', recs))"
  shows "flds \<noteq> []" and "length nvargs mod length flds = 0"
    and "execRows ext sz flds (length flds) (length nvargs div length flds) 0 nvargs [] =
         Some (Inr (nvargs', recs))"
  using assms by (auto simp: convertExecArgs_def Let_def split: if_splits)

lemma filter_upt_last:
  assumes "1 \<le> r"
  shows "filter (\<lambda>k. P k \<or> k = r - 1) [0..<r] = filter (\<lambda>k. P k \<or> k = r - 1) [0..<r - 1] @ [r - 1]"
proof -
  from assms obtain m where m: "r = Suc m" by (cases r) simp_all
  show ?thesis unfolding m by simp
qed

text \<open>
  C2 (as the code has it): when \<^verbatim>\<open>convertExecArgs\<close> accepts a batch of \<open>r\<close> rows, the
  row indices it returns are strictly increasing, and a row index is among them exactly
  when it is a row of the batch and either an argument of the row is a LOB whose first
  \<^verbatim>\<open>FetchNext\<close> did not give the last data, or the row is the last one.  With at least one
  row the list ends with \<open>r - 1\<close>; with no row it is empty.
\<close>

theorem convertExecArgs_addLobDataRecs:
  assumes "convertExecArgs ext flds nvargs lobChunkSize = Some (Inr (nvargs', recs))"
    and "length nvargs = r * length flds"
  shows "sorted_wrt (<) recs
     \<and> (\<forall>i. i \<in> set recs \<longleftrightarrow>
            i < r \<and> (rowOwesLobData ext lobChunkSize flds nvargs i \<or> i = r - 1))
     \<and> (1 \<le> r \<longrightarrow> recs \<noteq> [] \<and> last recs = r - 1)
     \<and> (r = 0 \<longrightarrow> recs = [])"
proof -
  note E = convertExecArgs_Inr [OF assms(1)]
  from E(1) assms(2) have r: "length nvargs div length flds = r" by simp
  from execRows_Inr [OF E(3) [unfolded r]]
  have recs: "recs = filter (\<lambda>k. rowOwesLobData ext lobChunkSize flds nvargs k \<or> k = r - 1) [0..<r]"
    by simp
  have sorted: "sorted_wrt (<) recs"
    unfolding recs by (rule sorted_wrt_filter) simp
  have mem: "\<forall>i. i \<in> set recs \<longleftrightarrow>
            i < r \<and> (rowOwesLobData ext lobChunkSize flds nvargs i \<or> i = r - 1)"
    unfolding recs by auto
  have last: "1 \<le> r \<longrightarrow> recs \<noteq> [] \<and> last recs = r - 1"
  proof
    assume "1 \<le> r"
    from filter_upt_last [OF this, of "rowOwesLobData ext lobChunkSize flds nvargs"]
    show "recs \<noteq> [] \<and> last recs = r - 1" unfolding recs by simp
  qed
  have none: "r = 0 \<longrightarrow> recs = []" unfolding recs by simp
  from sorted mem last none show ?thesis by (intro conjI)
qed

theorem convertExecArgs_addLobDataRecs_witness:
  "convertExecArgs sampleExt [inField ''A'', lobField ''L'']
     [namedArg 1 '''' (Prim 1), namedArg 2 '''' (Prim 4),
      namedArg 3 '''' (Prim 2), namedArg 4 '''' (Prim 20),
      namedArg 5 '''' (Prim 3), namedArg 6 '''' (Prim 5)] 8 =
   Some (Inr ([namedArg 1 '''' (Prim 101), namedArg 2 '''' (Lob (LobInDescr 0)),
      namedArg 3 '''' (Prim 102), namedArg 4 '''' (Lob (LobInDescr 12)),
      namedArg 5 '''' (Prim 103), namedArg 6 '''' (Lob (LobInDescr 0))], [1, 2]))
   \<and> rowOwesLobData sampleExt 8 [inField ''A'', lobField ''L'']
     [namedArg 1 '''' (Prim 1), namedArg 2 '''' (Prim 4),
      namedArg 3 '''' (Prim 2), namedArg 4 '''' (Prim 20),
      namedArg 5 '''' (Prim 3), namedArg 6 '''' (Prim 5)] 1
   \<and> \<not> rowOwesLobData sampleExt 8 [inField ''A'', lobField ''L'']
     [namedArg 1 '''' (Prim 1), namedArg 2 '''' (Prim 4),
      namedArg 3 '''' (Prim 2), namedArg 4 '''' (Prim 20),
      namedArg 5 '''' (Prim 3), namedArg 6 '''' (Prim 5)] 0
   \<and> sorted_wrt (<) [1, 2 :: nat] \<and> last [1, 2 :: nat] = 3 - 1"
proof -
  let ?F = "[inField ''A'', lobField ''L'']"
  let ?A = "[namedArg 1 '''' (Prim 1), namedArg 2 '''' (Prim 4),
      namedArg 3 '''' (Prim 2), namedArg 4 '''' (Prim 20),
      namedArg 5 '''' (Prim 3), namedArg 6 '''' (Prim 5)]"
  let ?A' = "[namedArg 1 '''' (Prim 101), namedArg 2 '''' (Lob (LobInDescr 0)),
      namedArg 3 '''' (Prim 102), namedArg 4 '''' (Lob (LobInDescr 12)),
      namedArg 5 '''' (Prim 103), namedArg 6 '''' (Lob (LobInDescr 0))]"
  have ev: "convertExecArgs sampleExt ?F ?A 8 = Some (Inr (?A', [1, 2]))"
    by code_simp
  have len: "length ?A = 3 * length ?F" by simp
  note T = convertExecArgs_addLobDataRecs [OF ev len]
  from T have sorted: "sorted_wrt (<) [1, 2 :: nat]" by (rule conjunct1)
  from T [THEN conjunct2, THEN conjunct1]
  have mem: "\<forall>i. i \<in> set [1, 2 :: nat] \<longleftrightarrow>
      i < 3 \<and> (rowOwesLobData sampleExt 8 ?F ?A i \<or> i = 3 - 1)" .
  from mem [rule_format, of 1] have one: "rowOwesLobData sampleExt 8 ?F ?A 1" by simp
  from mem [rule_format, of 0] have zero: "\<not> rowOwesLobData sampleExt 8 ?F ?A 0" by simp
  from T [THEN conjunct2, THEN conjunct2, THEN conjunct1]
  have last: "last [1, 2 :: nat] = 3 - 1" by simp
  from ev one zero sorted last show ?thesis by (intro conjI)
qed

text \<open>
  A batch without arguments for two fields is accepted with \<open>r = 0\<close>; the list returned
  is empty, so it has no last element.
\<close>

theorem convertExecArgs_empty_batch_counterexample:
  "length ([] :: namedValue list) = 0 * length [inField ''A'', inField ''B'']
   \<and> convertExecArgs sampleExt [inField ''A'', inField ''B''] [] 8 = Some (Inr ([], []))"
  by code_simp

text \<open>
  C3 (as the code has it): with at least one field, \<^verbatim>\<open>convertExecArgs\<close> returns the
  arity error with both counts when the number of arguments is not a multiple of the
  number of fields, and it returns without error only when the number of arguments is a
  multiple of the number of fields.  Zero is such a multiple: no argument at all is
  accepted, with no row index returned.
\<close>

theorem convertExecArgs_arity:
  assumes "flds \<noteq> []"
  shows "(length nvargs mod length flds \<noteq> 0 \<longrightarrow>
            convertExecArgs ext flds nvargs lobChunkSize =
              Some (Inl (ArityMultiple (length nvargs) (length flds))))
     \<and> (convertExecArgs ext flds nvargs lobChunkSize = Some (Inr res) \<longrightarrow>
            (\<exists>r. length nvargs = r * length flds))
     \<and> convertExecArgs ext flds [] lobChunkSize = Some (Inr ([], []))"
proof (intro conjI impI)
  assume "length nvargs mod length flds \<noteq> 0"
  with assms show "convertExecArgs ext flds nvargs lobChunkSize =
      Some (Inl (ArityMultiple (length nvargs) (length flds)))"
    by (simp add: convertExecArgs_def)
next
  assume "convertExecArgs ext flds nvargs lobChunkSize = Some (Inr res)"
  then have "length nvargs mod length flds = 0"
    by (auto simp: convertExecArgs_def Let_def split: if_splits)
  then have "length nvargs = (length nvargs div length flds) * length flds" by auto
  then show "\<exists>r. length nvargs = r * length flds" ..
next
  from assms show "convertExecArgs ext flds [] lobChunkSize = Some (Inr ([], []))"
    by (simp add: convertExecArgs_def execRows_end)
qed

theorem convertExecArgs_arity_witness:
  "convertExecArgs sampleExt [inField ''A'', inField ''B'']
     [namedArg 1 '''' (Prim 1), namedArg 2 '''' (Prim 2), namedArg 3 '''' (Prim 3)] 0 =
   Some (Inl (ArityMultiple 3 2))
   \<and> convertExecArgs sampleExt [inField ''A'', inField ''B'']
     [namedArg 1 '''' (Prim 1), namedArg 2 '''' (Prim 2)] 0 =
   Some (Inr ([namedArg 1 '''' (Prim 101), namedArg 2 '''' (Prim 102)], [0]))
   \<and> (\<exists>r. length [namedArg 1 '''' (Prim 1), namedArg 2 '''' (Prim 2)] =
          r * length [inField ''A'', inField ''B''])
   \<and> convertExecArgs sampleExt [inField ''A'', inField ''B''] [] 0 = Some (Inr ([], []))"
proof -
  let ?F = "[inField ''A'', inField ''B'']"
  let ?A3 = "[namedArg 1 '''' (Prim 1), namedArg 2 '''' (Prim 2), namedArg 3 '''' (Prim 3)]"
  let ?A2 = "[namedArg 1 '''' (Prim 1), namedArg 2 '''' (Prim 2)]"
  have F: "?F \<noteq> []" by simp
  note T = convertExecArgs_arity [OF F]
  have m: "length ?A3 mod length ?F \<noteq> 0" by code_simp
  have l3: "length ?A3 = 3" and l2: "length ?F = 2" by simp_all
  from T [of ?A3 sampleExt 0, THEN conjunct1, THEN mp, OF m]
  have three: "convertExecArgs sampleExt ?F ?A3 0 = Some (Inl (ArityMultiple 3 2))"
    unfolding l3 l2 .
  have two: "convertExecArgs sampleExt ?F ?A2 0 =
      Some (Inr ([namedArg 1 '''' (Prim 101), namedArg 2 '''' (Prim 102)], [0]))"
    by code_simp
  from T [of ?A2 sampleExt 0, THEN conjunct2, THEN conjunct1, THEN mp, OF two]
  have mult: "\<exists>r. length ?A2 = r * length ?F" .
  from T [of ?A2 sampleExt 0, THEN conjunct2, THEN conjunct2]
  have none: "convertExecArgs sampleExt ?F [] 0 = Some (Inr ([], []))" .
  from three two mult none show ?thesis by (intro conjI)
qed

text \<open>
  No argument for one field: zero is not a positive multiple of one, and the call
  returns no arity error.
\<close>

theorem convertExecArgs_no_argument_counterexample:
  "length ([] :: namedValue list) = 0
   \<and> convertExecArgs sampleExt [inField ''A''] [] 0 = Some (Inr ([], []))"
  by code_simp

text \<open>
  C9 (as the code has it): with no field, \<^verbatim>\<open>convertExecArgs\<close> panics on the division by
  zero of its first statement, whatever the arguments are, and returns no error.  With at
  least one field neither the arity check nor the loops panic (no division by zero, no
  index out of range), and the call returns when the \<^verbatim>\<open>Value()\<close> chain of every argument
  ends.  It does not return for every input: an argument whose chain never ends keeps
  the row loop in \<^verbatim>\<open>convertArg\<close> for ever.
\<close>

theorem convertExecArgs_panics_iff_no_field:
  "convertExecArgs ext [] nvargs lobChunkSize = Some (Inl PanicDivideByZero)
   \<and> (flds \<noteq> [] \<longrightarrow>
        convertExecArgs ext flds nvargs lobChunkSize \<noteq> Some (Inl PanicDivideByZero)
        \<and> convertExecArgs ext flds nvargs lobChunkSize \<noteq> Some (Inl PanicIndexOutOfRange))
   \<and> (flds \<noteq> [] \<and> (\<forall>a\<in>set nvargs. valuerLoop (valuer ext) (Value a) \<noteq> None) \<longrightarrow>
        convertExecArgs ext flds nvargs lobChunkSize \<noteq> None)"
proof (intro conjI impI)
  show "convertExecArgs ext [] nvargs lobChunkSize = Some (Inl PanicDivideByZero)"
    by (simp add: convertExecArgs_def)
next
  assume F: "flds \<noteq> []"
  have bound: "length nvargs div length flds * length flds \<le> length nvargs" by simp
  note NP = execRows_no_panic [OF bound, of ext lobChunkSize 0 "[]"]
  from F NP show "convertExecArgs ext flds nvargs lobChunkSize \<noteq> Some (Inl PanicDivideByZero)"
    by (simp add: convertExecArgs_def Let_def)
  from F NP show "convertExecArgs ext flds nvargs lobChunkSize \<noteq> Some (Inl PanicIndexOutOfRange)"
    by (simp add: convertExecArgs_def Let_def)
next
  assume "flds \<noteq> [] \<and> (\<forall>a\<in>set nvargs. valuerLoop (valuer ext) (Value a) \<noteq> None)"
  then have F: "flds \<noteq> []"
    and T: "\<forall>a\<in>set nvargs. valuerLoop (valuer ext) (Value a) \<noteq> None" by simp_all
  from F T show "convertExecArgs ext flds nvargs lobChunkSize \<noteq> None"
    by (rule convertExecArgs_returns)
qed

theorem convertExecArgs_panics_iff_no_field_witness:
  "convertExecArgs sampleExt [] [namedArg 1 '''' (Prim 7)] 0 = Some (Inl PanicDivideByZero)
   \<and> convertExecArgs sampleExt [inField ''A''] [namedArg 1 '''' (Prim 7)] 0
        \<noteq> Some (Inl PanicDivideByZero)
   \<and> convertExecArgs sampleExt [inField ''A''] [namedArg 1 '''' (Prim 7)] 0
        \<noteq> Some (Inl PanicIndexOutOfRange)
   \<and> valuerLoop (valuer sampleExt) (Prim 7) = Some (Inr (Prim 8))
   \<and> convertExecArgs sampleExt [inField ''A''] [namedArg 1 '''' (Prim 7)] 0 \<noteq> None"
proof -
  let ?F = "[inField ''A'']"
  let ?A = "[namedArg 1 '''' (Prim 7)]"
  note T = convertExecArgs_panics_iff_no_field [of sampleExt ?A 0 ?F]
  have F: "?F \<noteq> []" by simp
  have l7: "valuerLoop (valuer sampleExt) (Prim 7) = Some (Inr (Prim 8))"
    by (simp add: valuerLoop.simps sampleExt_def)
  then have V: "\<forall>a\<in>set ?A. valuerLoop (valuer sampleExt) (Value a) \<noteq> None"
    by (simp add: namedArg_def)
  from T have zero: "convertExecArgs sampleExt [] ?A 0 = Some (Inl PanicDivideByZero)"
    by (rule conjunct1)
  from T [THEN conjunct2, THEN conjunct1, THEN mp, OF F]
  have np: "convertExecArgs sampleExt ?F ?A 0 \<noteq> Some (Inl PanicDivideByZero)
      \<and> convertExecArgs sampleExt ?F ?A 0 \<noteq> Some (Inl PanicIndexOutOfRange)" .
  from T [THEN conjunct2, THEN conjunct2, THEN mp, OF conjI, OF F V]
  have tot: "convertExecArgs sampleExt ?F ?A 0 \<noteq> None" .
  from zero np l7 tot show ?thesis by simp
qed

text \<open>
  One field and one argument, a \<^verbatim>\<open>driver.Valuer\<close> whose \<^verbatim>\<open>Value()\<close> returns the receiver:
  the call does not return.
\<close>

theorem convertExecArgs_endless_chain_counterexample:
  "[inField ''A''] \<noteq> []
   \<and> convertExecArgs sampleExt [inField ''A''] [namedArg 1 '''' (Prim 66)] 0 = None"
proof -
  have v: "valuer sampleExt (Prim 66) = Some (Inr (Prim 66))"
    by (simp add: sampleExt_def)
  then have l: "valuerLoop (valuer sampleExt) (Prim 66) = None"
    by (rule self_valuer_diverges) simp
  have "convertExecArgs sampleExt [inField ''A''] [namedArg 1 '''' (Prim 66)] 0 = None"
    by (simp add: convertExecArgs_def execRows.simps execArg_def convertArg_def l
        inField_def namedArg_def)
  then show ?thesis by simp
qed

subsection \<open>convertQueryArgs\<close>



subsection \<open>convertCallArgs\<close>

lemma fetchFirstLobChunk_Out [simp]:
  "isOutArg v \<Longrightarrow> fetchFirstLobChunk ext sz v = Inr v"
  by (cases v) simp_all

lemma callIn_Inr:
  assumes "callIn ext sz f isOut out nvarg ca = Some (Inr (out', nvarg', ca'))"
  shows "Name nvarg' = Name nvarg" and "Ordinal nvarg' = Ordinal nvarg"
    and "inFields ca' = inFields ca @ filter pfIn [f]"
    and "inArgs ca' = inArgs ca @ (if pfIn f then [nvarg'] else [])"
    and "outFields ca' = outFields ca" and "outArgs ca' = outArgs ca"
  using assms
  by (auto simp: callIn_def Let_def split: if_splits option.splits sum.splits)

lemma callIn_isOut:
  assumes "callIn ext sz f True (Value nvarg) nvarg ca = Some (Inr (out', nvarg', ca'))"
    and "isOutArg (Value nvarg)"
  shows "nvarg' = nvarg"
  using assms
  by (auto simp: callIn_def Let_def split: if_splits option.splits sum.splits)

lemma callOut_Inr:
  assumes "callOut f isOut out nvarg ca = Inr ca'"
  shows "inFields ca' = inFields ca" and "inArgs ca' = inArgs ca"
    and "outFields ca' = outFields ca @ filter pfOut [f]"
    and "outArgs ca' = outArgs ca @ (if pfOut f then [nvarg] else [])"
  using assms
  by (auto simp: callOut_def split: if_splits)

lemma callField_Inr:
  assumes "callField ext sz F i f prm ca = Some (Inr (prm', ca'))"
  shows "length prm' = length prm"
    and "mset (map ordinalName prm') = mset (map ordinalName prm)"
    and "inFields ca' = inFields ca @ filter pfIn [f]"
    and "length (inArgs ca') = length (inArgs ca) + length (filter pfIn [f])"
    and "outFields ca' = outFields ca @ filter pfOut [f]"
    and "length (outArgs ca') = length (outArgs ca) + length (filter pfOut [f])"
    and "take (length (outArgs ca)) (outArgs ca') = outArgs ca"
proof -
  let ?prm = "reorderNVArgs i (pfName f) prm"
  let ?nvarg = "?prm ! i"
  let ?isOut = "isOutArg (Value ?nvarg)"
  let ?out = "if ?isOut then Value ?nvarg else Out NilIface False"
  from assms have i: "i < length ?prm"
    by (auto simp: callField_def Let_def split: if_splits)
  with assms obtain out' nvarg' ca1 where
    cin: "callIn ext sz f ?isOut ?out ?nvarg ca = Some (Inr (out', nvarg', ca1))"
    and cout: "callOut f ?isOut out' nvarg' ca1 = Inr ca'"
    and prm': "prm' = ?prm[i := nvarg']"
    by (auto simp: callField_def Let_def split: if_splits option.splits sum.splits)
  note I = callIn_Inr [OF cin]
  note O = callOut_Inr [OF cout]
  show "length prm' = length prm" by (simp add: prm')
  have on: "ordinalName nvarg' = ordinalName ?nvarg"
    using I(1,2) by (simp add: ordinalName_def)
  have "map ordinalName prm' = (map ordinalName ?prm)[i := ordinalName ?nvarg]"
    by (simp add: prm' map_update on)
  also have "\<dots> = map ordinalName ?prm"
    using i by (simp add: list_update_same_conv)
  finally have "mset (map ordinalName prm') = mset (map ordinalName ?prm)" by simp
  also have "\<dots> = image_mset ordinalName (mset ?prm)" by simp
  also have "\<dots> = image_mset ordinalName (mset prm)" by (simp only: mset_reorderNVArgs)
  finally show "mset (map ordinalName prm') = mset (map ordinalName prm)" by simp
  show "inFields ca' = inFields ca @ filter pfIn [f]" using I(3) O(1) by simp
  show "length (inArgs ca') = length (inArgs ca) + length (filter pfIn [f])"
    using I(4) O(2) by simp
  show "outFields ca' = outFields ca @ filter pfOut [f]" using I(5) O(3) by simp
  show "length (outArgs ca') = length (outArgs ca) + length (filter pfOut [f])"
    using I(6) O(4) by simp
  show "take (length (outArgs ca)) (outArgs ca') = outArgs ca" using I(6) O(4) by simp
qed

lemma callFields_Inr:
  "callFields ext sz F i fs prm ca = Some (Inr (prm', ca')) \<Longrightarrow>
   length prm' = length prm
   \<and> mset (map ordinalName prm') = mset (map ordinalName prm)
   \<and> inFields ca' = inFields ca @ filter pfIn fs
   \<and> length (inArgs ca') = length (inArgs ca) + length (filter pfIn fs)
   \<and> outFields ca' = outFields ca @ filter pfOut fs
   \<and> length (outArgs ca') = length (outArgs ca) + length (filter pfOut fs)
   \<and> take (length (outArgs ca)) (outArgs ca') = outArgs ca"
proof (induction fs arbitrary: i prm ca)
  case Nil
  then show ?case by simp
next
  case (Cons f fs)
  then obtain prm1 ca1 where
    step: "callField ext sz F i f prm ca = Some (Inr (prm1, ca1))"
    and rest: "callFields ext sz F (Suc i) fs prm1 ca1 = Some (Inr (prm', ca'))"
    by (auto split: option.splits sum.splits)
  note S = callField_Inr [OF step]
  note IH = Cons.IH [OF rest]
  from IH S(1) have c1: "length prm' = length prm" by simp
  from IH [THEN conjunct2, THEN conjunct1] S(2)
  have c2: "mset (map ordinalName prm') = mset (map ordinalName prm)" by simp
  from IH [THEN conjunct2, THEN conjunct2, THEN conjunct1] S(3)
  have c3: "inFields ca' = inFields ca @ filter pfIn (f # fs)" by simp
  from IH [THEN conjunct2, THEN conjunct2, THEN conjunct2, THEN conjunct1] S(4)
  have c4: "length (inArgs ca') = length (inArgs ca) + length (filter pfIn (f # fs))" by simp
  from IH [THEN conjunct2, THEN conjunct2, THEN conjunct2, THEN conjunct2, THEN conjunct1] S(5)
  have c5: "outFields ca' = outFields ca @ filter pfOut (f # fs)" by simp
  from IH [THEN conjunct2, THEN conjunct2, THEN conjunct2, THEN conjunct2, THEN conjunct2,
           THEN conjunct1] S(6)
  have c6: "length (outArgs ca') = length (outArgs ca) + length (filter pfOut (f # fs))" by simp
  from IH [THEN conjunct2, THEN conjunct2, THEN conjunct2, THEN conjunct2, THEN conjunct2,
           THEN conjunct2]
  have t1: "take (length (outArgs ca1)) (outArgs ca') = outArgs ca1" .
  have "take (length (outArgs ca)) (outArgs ca') =
        take (length (outArgs ca)) (take (length (outArgs ca1)) (outArgs ca'))"
    using S(6) by (simp add: min_def)
  also have "\<dots> = outArgs ca" unfolding t1 by (rule S(7))
  finally have c7: "take (length (outArgs ca)) (outArgs ca') = outArgs ca" .
  from c1 c2 c3 c4 c5 c6 c7 show ?case by (intro conjI)
qed

lemma callTableArgs_Inr:
  "callTableArgs i as ca = Inr ca' \<Longrightarrow>
   inFields ca' = inFields ca \<and> inArgs ca' = inArgs ca \<and> outFields ca' = outFields ca
   \<and> outArgs ca' = outArgs ca @ as \<and> (\<forall>a\<in>set as. cursorOutArg (Value a))"
proof (induction as arbitrary: i ca)
  case Nil
  then show ?case by simp
next
  case (Cons a as)
  from Cons.prems have a: "isOutArg (Value a)" "isRows (Dest (Value a))"
    by (auto split: if_splits)
  with Cons.prems have
    rest: "callTableArgs (Suc i) as (ca\<lparr>outArgs := outArgs ca @ [a]\<rparr>) = Inr ca'"
    by simp
  from Cons.IH [OF rest] a show ?case by (simp add: cursorOutArg_def)
qed

lemma callTableArgs_first_offender:
  assumes "\<forall>a\<in>set good. cursorOutArg (Value a)" and "\<not> cursorOutArg (Value bad)"
  shows "callTableArgs i (good @ bad # rest) ca =
         Inl (if isOutArg (Value bad) then OutputParameterAt (Dest (Value bad)) (i + length good)
              else ParameterTypeAt (Value bad) (i + length good))"
  using assms
  by (induction good arbitrary: i ca) (auto simp: cursorOutArg_def)

lemma convertCallArgs_Inr:
  assumes "convertCallArgs ext flds nvargs sz = Some (Inr (nvargs', ca))"
  obtains prm ca0 where
    "length flds \<le> length nvargs"
    "callFields ext sz flds 0 flds (take (length flds) nvargs) newCallArgs = Some (Inr (prm, ca0))"
    "callTableArgs (length flds) (drop (length flds) nvargs) ca0 = Inr ca"
    "nvargs' = prm @ drop (length flds) nvargs"
  using assms
  by (auto simp: convertCallArgs_def split: if_splits option.splits sum.splits)

lemma convertCallArgs_parts:
  assumes "convertCallArgs ext flds nvargs sz = Some (Inr (nvargs', ca))"
  shows "inFields ca = filter pfIn flds"
    and "length (inArgs ca) = length (filter pfIn flds)"
    and "outFields ca = filter pfOut flds"
    and "drop (length (filter pfOut flds)) (outArgs ca) = drop (length flds) nvargs"
    and "\<forall>a\<in>set (drop (length flds) nvargs). cursorOutArg (Value a)"
    and "length nvargs' = length nvargs"
    and "mset (map ordinalName nvargs') = mset (map ordinalName nvargs)"
    and "drop (length flds) nvargs' = drop (length flds) nvargs"
    and "length (outArgs ca) = length (filter pfOut flds) + length (drop (length flds) nvargs)"
proof -
  from assms obtain prm ca0 where
    len: "length flds \<le> length nvargs"
    and fl: "callFields ext sz flds 0 flds (take (length flds) nvargs) newCallArgs =
             Some (Inr (prm, ca0))"
    and tb: "callTableArgs (length flds) (drop (length flds) nvargs) ca0 = Inr ca"
    and nv: "nvargs' = prm @ drop (length flds) nvargs"
    by (rule convertCallArgs_Inr)
  note F = callFields_Inr [OF fl]
  note T = callTableArgs_Inr [OF tb]
  from F have lp: "length prm = length flds" using len by simp
  from F [THEN conjunct2, THEN conjunct1]
  have ms: "mset (map ordinalName prm) = mset (map ordinalName (take (length flds) nvargs))" .
  from F [THEN conjunct2, THEN conjunct2, THEN conjunct1]
  have inF: "inFields ca0 = filter pfIn flds" by (simp add: newCallArgs_def)
  from F [THEN conjunct2, THEN conjunct2, THEN conjunct2, THEN conjunct1]
  have inA: "length (inArgs ca0) = length (filter pfIn flds)" by (simp add: newCallArgs_def)
  from F [THEN conjunct2, THEN conjunct2, THEN conjunct2, THEN conjunct2, THEN conjunct1]
  have outF: "outFields ca0 = filter pfOut flds" by (simp add: newCallArgs_def)
  from F [THEN conjunct2, THEN conjunct2, THEN conjunct2, THEN conjunct2, THEN conjunct2,
          THEN conjunct1]
  have outA: "length (outArgs ca0) = length (filter pfOut flds)" by (simp add: newCallArgs_def)
  from T have t1: "inFields ca = inFields ca0" by (rule conjunct1)
  from T [THEN conjunct2, THEN conjunct1] have t2: "inArgs ca = inArgs ca0" .
  from T [THEN conjunct2, THEN conjunct2, THEN conjunct1] have t3: "outFields ca = outFields ca0" .
  from T [THEN conjunct2, THEN conjunct2, THEN conjunct2, THEN conjunct1]
  have t4: "outArgs ca = outArgs ca0 @ drop (length flds) nvargs" .
  from T [THEN conjunct2, THEN conjunct2, THEN conjunct2, THEN conjunct2]
  show "\<forall>a\<in>set (drop (length flds) nvargs). cursorOutArg (Value a)" .
  show "inFields ca = filter pfIn flds" using t1 inF by simp
  show "length (inArgs ca) = length (filter pfIn flds)" using t2 inA by simp
  show "outFields ca = filter pfOut flds" using t3 outF by simp
  show "drop (length (filter pfOut flds)) (outArgs ca) = drop (length flds) nvargs"
    using t4 outA by simp
  show "length nvargs' = length nvargs" using nv lp len by simp
  have "mset (map ordinalName nvargs') =
        mset (map ordinalName (take (length flds) nvargs))
        + mset (map ordinalName (drop (length flds) nvargs))"
    using ms by (simp add: nv)
  also have "\<dots> = mset (map ordinalName (take (length flds) nvargs @ drop (length flds) nvargs))"
    by (simp only: map_append mset_append)
  also have "\<dots> = mset (map ordinalName nvargs)"
    by (simp only: append_take_drop_id)
  finally show "mset (map ordinalName nvargs') = mset (map ordinalName nvargs)" .
  show "drop (length flds) nvargs' = drop (length flds) nvargs"
    using nv lp by simp
  show "length (outArgs ca) = length (filter pfOut flds) + length (drop (length flds) nvargs)"
    using t4 outA by simp
qed

text \<open>
  C5: when \<^verbatim>\<open>convertCallArgs\<close> returns call arguments, \<^verbatim>\<open>inFields\<close> and \<^verbatim>\<open>inArgs\<close> have
  the same length, \<^verbatim>\<open>outArgs\<close> is at least as long as \<^verbatim>\<open>outFields\<close>, every entry of
  \<^verbatim>\<open>outArgs\<close> behind the first \<^verbatim>\<open>len(outFields)\<close> ones is a \<^verbatim>\<open>sql.Out\<close> with a
  \<^verbatim>\<open>*sql.Rows\<close> destination, \<^verbatim>\<open>inFields\<close> is the list of the fields with \<^verbatim>\<open>In()\<close> in
  their order, and \<^verbatim>\<open>outFields\<close> the list of the fields with \<^verbatim>\<open>Out()\<close> in their order.
\<close>

theorem convertCallArgs_callArgs_invariants:
  assumes "convertCallArgs ext flds nvargs lobChunkSize = Some (Inr (nvargs', callArgs))"
  shows "length (inFields callArgs) = length (inArgs callArgs)
     \<and> length (outFields callArgs) \<le> length (outArgs callArgs)
     \<and> (\<forall>a\<in>set (drop (length (outFields callArgs)) (outArgs callArgs)). cursorOutArg (Value a))
     \<and> inFields callArgs = filter pfIn flds
     \<and> outFields callArgs = filter pfOut flds"
proof -
  note P = convertCallArgs_parts [OF assms]
  have c1: "length (inFields callArgs) = length (inArgs callArgs)"
    using P(1,2) by simp
  have c2: "length (outFields callArgs) \<le> length (outArgs callArgs)"
    using P(3,9) by simp
  have c3: "\<forall>a\<in>set (drop (length (outFields callArgs)) (outArgs callArgs)).
              cursorOutArg (Value a)"
    using P(3,4,5) by simp
  from c1 c2 c3 P(1) P(3) show ?thesis by (intro conjI)
qed

theorem convertCallArgs_callArgs_invariants_witness:
  "convertCallArgs sampleExt [inField ''X'', outField ''Y'', inOutField ''Z'']
     [namedArg 1 ''X'' (Prim 1), namedArg 2 ''Y'' (Out (Ptr (Prim 0)) False),
      namedArg 3 ''Z'' (Out (Prim 4) True), namedArg 4 '''' (Out Rows False),
      namedArg 5 '''' (Out NilRows False)] 8 =
   Some (Inr ([namedArg 1 ''X'' (Prim 101), namedArg 2 ''Y'' (Out (Ptr (Prim 0)) False),
      namedArg 3 ''Z'' (Out (Prim 4) True), namedArg 4 '''' (Out Rows False),
      namedArg 5 '''' (Out NilRows False)],
     \<lparr>inFields = [inField ''X'', inOutField ''Z''],
      outFields = [outField ''Y'', inOutField ''Z''],
      inArgs = [namedArg 1 ''X'' (Prim 101), namedArg 3 ''Z'' (Out (Prim 4) True)],
      outArgs = [namedArg 2 ''Y'' (Out (Ptr (Prim 0)) False),
        namedArg 3 ''Z'' (Out (Prim 4) True), namedArg 4 '''' (Out Rows False),
        namedArg 5 '''' (Out NilRows False)]\<rparr>))
   \<and> cursorOutArg (Value (namedArg 4 '''' (Out Rows False)))
   \<and> cursorOutArg (Value (namedArg 5 '''' (Out NilRows False)))
   \<and> [inField ''X'', inOutField ''Z''] =
       filter pfIn [inField ''X'', outField ''Y'', inOutField ''Z'']
   \<and> [outField ''Y'', inOutField ''Z''] =
       filter pfOut [inField ''X'', outField ''Y'', inOutField ''Z'']"
proof -
  let ?F = "[inField ''X'', outField ''Y'', inOutField ''Z'']"
  let ?A = "[namedArg 1 ''X'' (Prim 1), namedArg 2 ''Y'' (Out (Ptr (Prim 0)) False),
      namedArg 3 ''Z'' (Out (Prim 4) True), namedArg 4 '''' (Out Rows False),
      namedArg 5 '''' (Out NilRows False)]"
  let ?A' = "[namedArg 1 ''X'' (Prim 101), namedArg 2 ''Y'' (Out (Ptr (Prim 0)) False),
      namedArg 3 ''Z'' (Out (Prim 4) True), namedArg 4 '''' (Out Rows False),
      namedArg 5 '''' (Out NilRows False)]"
  let ?CA = "\<lparr>inFields = [inField ''X'', inOutField ''Z''],
      outFields = [outField ''Y'', inOutField ''Z''],
      inArgs = [namedArg 1 ''X'' (Prim 101), namedArg 3 ''Z'' (Out (Prim 4) True)],
      outArgs = [namedArg 2 ''Y'' (Out (Ptr (Prim 0)) False),
        namedArg 3 ''Z'' (Out (Prim 4) True), namedArg 4 '''' (Out Rows False),
        namedArg 5 '''' (Out NilRows False)]\<rparr>"
  have ev: "convertCallArgs sampleExt ?F ?A 8 = Some (Inr (?A', ?CA))"
    by code_simp
  note T = convertCallArgs_callArgs_invariants [OF ev]
  from T [THEN conjunct2, THEN conjunct2, THEN conjunct1]
  have cur: "cursorOutArg (Value (namedArg 4 '''' (Out Rows False)))
      \<and> cursorOutArg (Value (namedArg 5 '''' (Out NilRows False)))" by simp
  from T [THEN conjunct2, THEN conjunct2, THEN conjunct2, THEN conjunct1]
  have inF: "[inField ''X'', inOutField ''Z''] = filter pfIn ?F" by simp
  from T [THEN conjunct2, THEN conjunct2, THEN conjunct2, THEN conjunct2]
  have outF: "[outField ''Y'', inOutField ''Z''] = filter pfOut ?F" by simp
  from ev cur inF outF show ?thesis by (intro conjI) simp_all
qed

text \<open>
  C6 (as the code has it): when \<^verbatim>\<open>convertCallArgs\<close> returns call arguments, every
  argument behind the fields is a \<^verbatim>\<open>sql.Out\<close> with a \<^verbatim>\<open>*sql.Rows\<close> destination (a nil
  one too), and these arguments are the entries of \<^verbatim>\<open>outArgs\<close> behind the first
  \<^verbatim>\<open>len(outFields)\<close> ones, in their order, while \<^verbatim>\<open>outFields\<close> holds the output fields
  only.  When the loop over the fields has passed and argument \<open>i\<close> is the first one
  behind the fields that is no such \<^verbatim>\<open>sql.Out\<close>, the call fails with the error that
  carries \<open>i\<close> and the value whose type is printed: the argument's value when it is no
  \<^verbatim>\<open>sql.Out\<close>, its \<^verbatim>\<open>Dest\<close> otherwise.  The call stops at its first error: a later
  argument that is no such \<^verbatim>\<open>sql.Out\<close> is not reported, and neither is any when the loop
  over the fields fails.
\<close>

theorem convertCallArgs_table_output_args:
  "(convertCallArgs ext flds nvargs lobChunkSize = Some (Inr (nvargs', callArgs)) \<longrightarrow>
      (\<forall>i. length flds \<le> i \<and> i < length nvargs \<longrightarrow> cursorOutArg (Value (nvargs ! i)))
      \<and> drop (length (outFields callArgs)) (outArgs callArgs) = drop (length flds) nvargs
      \<and> outFields callArgs = filter pfOut flds)
   \<and> (callFields ext lobChunkSize flds 0 flds (take (length flds) nvargs) newCallArgs =
        Some (Inr (prm, ca0))
      \<and> length flds \<le> i \<and> i < length nvargs \<and> \<not> cursorOutArg (Value (nvargs ! i))
      \<and> (\<forall>k. length flds \<le> k \<and> k < i \<longrightarrow> cursorOutArg (Value (nvargs ! k))) \<longrightarrow>
      convertCallArgs ext flds nvargs lobChunkSize =
        Some (Inl (if isOutArg (Value (nvargs ! i))
                   then OutputParameterAt (Dest (Value (nvargs ! i))) i
                   else ParameterTypeAt (Value (nvargs ! i)) i)))"
proof (intro conjI impI)
  assume ok: "convertCallArgs ext flds nvargs lobChunkSize = Some (Inr (nvargs', callArgs))"
  note P = convertCallArgs_parts [OF ok]
  show "\<forall>i. length flds \<le> i \<and> i < length nvargs \<longrightarrow> cursorOutArg (Value (nvargs ! i))"
  proof (intro allI impI)
    fix i assume i: "length flds \<le> i \<and> i < length nvargs"
    then have "nvargs ! i = drop (length flds) nvargs ! (i - length flds)" by simp
    moreover from i have "i - length flds < length (drop (length flds) nvargs)" by auto
    ultimately have "nvargs ! i \<in> set (drop (length flds) nvargs)"
      by (metis nth_mem)
    with P(5) show "cursorOutArg (Value (nvargs ! i))" by blast
  qed
  show "drop (length (outFields callArgs)) (outArgs callArgs) = drop (length flds) nvargs"
    using P(3,4) by simp
  show "outFields callArgs = filter pfOut flds" by (rule P(3))
next
  assume H: "callFields ext lobChunkSize flds 0 flds (take (length flds) nvargs) newCallArgs =
        Some (Inr (prm, ca0))
      \<and> length flds \<le> i \<and> i < length nvargs \<and> \<not> cursorOutArg (Value (nvargs ! i))
      \<and> (\<forall>k. length flds \<le> k \<and> k < i \<longrightarrow> cursorOutArg (Value (nvargs ! k)))"
  then have fl: "callFields ext lobChunkSize flds 0 flds (take (length flds) nvargs) newCallArgs =
        Some (Inr (prm, ca0))"
    and lo: "length flds \<le> i" and hi: "i < length nvargs"
    and bad: "\<not> cursorOutArg (Value (nvargs ! i))"
    and good: "\<forall>k. length flds \<le> k \<and> k < i \<longrightarrow> cursorOutArg (Value (nvargs ! k))"
    by blast+
  let ?tail = "drop (length flds) nvargs"
  let ?d = "i - length flds"
  from lo hi have d: "?d < length ?tail" by auto
  from lo hi have at: "?tail ! ?d = nvargs ! i" by simp
  from id_take_nth_drop [OF d] at
  have split: "?tail = take ?d ?tail @ nvargs ! i # drop (Suc ?d) ?tail" by simp
  have allgood: "\<forall>a\<in>set (take ?d ?tail). cursorOutArg (Value a)"
  proof
    fix a assume "a \<in> set (take ?d ?tail)"
    then obtain m where m: "m < length (take ?d ?tail)" "a = take ?d ?tail ! m"
      by (auto simp: in_set_conv_nth)
    then have md: "m < ?d" by simp
    with m lo hi have "a = nvargs ! (length flds + m)" by simp
    moreover from md lo have "length flds \<le> length flds + m \<and> length flds + m < i" by auto
    ultimately show "cursorOutArg (Value a)" using good by blast
  qed
  have lt: "length (take ?d ?tail) = ?d" using d by simp
  from callTableArgs_first_offender [OF allgood bad, of "length flds" "drop (Suc ?d) ?tail" ca0]
  have "callTableArgs (length flds) (take ?d ?tail @ nvargs ! i # drop (Suc ?d) ?tail) ca0 =
      Inl (if isOutArg (Value (nvargs ! i))
           then OutputParameterAt (Dest (Value (nvargs ! i))) (length flds + ?d)
           else ParameterTypeAt (Value (nvargs ! i)) (length flds + ?d))"
    unfolding lt .
  with split lo have tb: "callTableArgs (length flds) ?tail ca0 =
      Inl (if isOutArg (Value (nvargs ! i))
           then OutputParameterAt (Dest (Value (nvargs ! i))) i
           else ParameterTypeAt (Value (nvargs ! i)) i)"
    by simp
  from lo hi have "\<not> length nvargs < length flds" by simp
  with fl tb show "convertCallArgs ext flds nvargs lobChunkSize =
        Some (Inl (if isOutArg (Value (nvargs ! i))
                   then OutputParameterAt (Dest (Value (nvargs ! i))) i
                   else ParameterTypeAt (Value (nvargs ! i)) i))"
    by (simp add: convertCallArgs_def)
qed

theorem convertCallArgs_table_output_args_witness:
  "convertCallArgs sampleExt [inField ''X'']
     [namedArg 1 ''X'' (Prim 1), namedArg 2 '''' (Out Rows False),
      namedArg 3 '''' (Out NilRows True)] 8 =
   Some (Inr ([namedArg 1 ''X'' (Prim 101), namedArg 2 '''' (Out Rows False),
      namedArg 3 '''' (Out NilRows True)],
     \<lparr>inFields = [inField ''X''], outFields = [],
      inArgs = [namedArg 1 ''X'' (Prim 101)],
      outArgs = [namedArg 2 '''' (Out Rows False), namedArg 3 '''' (Out NilRows True)]\<rparr>))
   \<and> cursorOutArg (Out NilRows True)
   \<and> convertCallArgs sampleExt [inField ''X'']
     [namedArg 1 ''X'' (Prim 1), namedArg 2 '''' (Out Rows False), namedArg 3 '''' (Prim 5)] 8 =
   Some (Inl (ParameterTypeAt (Prim 5) 2))
   \<and> convertCallArgs sampleExt [inField ''X'']
     [namedArg 1 ''X'' (Prim 1), namedArg 2 '''' (Out Rows False),
      namedArg 3 '''' (Out (Prim 5) False)] 8 =
   Some (Inl (OutputParameterAt (Prim 5) 2))"
proof -
  let ?F = "[inField ''X'']"
  let ?ok = "[namedArg 1 ''X'' (Prim 1), namedArg 2 '''' (Out Rows False),
      namedArg 3 '''' (Out NilRows True)]"
  let ?ok' = "[namedArg 1 ''X'' (Prim 101), namedArg 2 '''' (Out Rows False),
      namedArg 3 '''' (Out NilRows True)]"
  let ?CA = "\<lparr>inFields = [inField ''X''], outFields = [],
      inArgs = [namedArg 1 ''X'' (Prim 101)],
      outArgs = [namedArg 2 '''' (Out Rows False), namedArg 3 '''' (Out NilRows True)]\<rparr>"
  let ?bad1 = "[namedArg 1 ''X'' (Prim 1), namedArg 2 '''' (Out Rows False),
      namedArg 3 '''' (Prim 5)]"
  let ?bad2 = "[namedArg 1 ''X'' (Prim 1), namedArg 2 '''' (Out Rows False),
      namedArg 3 '''' (Out (Prim 5) False)]"
  let ?ca0 = "\<lparr>inFields = [inField ''X''], outFields = [],
      inArgs = [namedArg 1 ''X'' (Prim 101)], outArgs = []\<rparr>"
  have ev: "convertCallArgs sampleExt ?F ?ok 8 = Some (Inr (?ok', ?CA))"
    by code_simp
  from convertCallArgs_table_output_args
         [of sampleExt ?F ?ok 8 ?ok' ?CA, THEN conjunct1, THEN mp, OF ev, THEN conjunct1,
          THEN spec, of 2]
  have cur: "cursorOutArg (Out NilRows True)" by (simp add: namedArg_def)
  have fl1: "callFields sampleExt 8 ?F 0 ?F (take (length ?F) ?bad1) newCallArgs =
      Some (Inr ([namedArg 1 ''X'' (Prim 101)], ?ca0))"
    by code_simp
  have fl2: "callFields sampleExt 8 ?F 0 ?F (take (length ?F) ?bad2) newCallArgs =
      Some (Inr ([namedArg 1 ''X'' (Prim 101)], ?ca0))"
    by code_simp
  have b1: "\<not> cursorOutArg (Value (?bad1 ! 2))"
    by (simp add: cursorOutArg_def namedArg_def)
  have b2: "\<not> cursorOutArg (Value (?bad2 ! 2))"
    by (simp add: cursorOutArg_def namedArg_def)
  have g1: "\<forall>k. length ?F \<le> k \<and> k < 2 \<longrightarrow> cursorOutArg (Value (?bad1 ! k))"
  proof (intro allI impI)
    fix k :: nat assume "length ?F \<le> k \<and> k < 2"
    then have "k = 1" by simp
    then show "cursorOutArg (Value (?bad1 ! k))" by (simp add: cursorOutArg_def namedArg_def)
  qed
  have g2: "\<forall>k. length ?F \<le> k \<and> k < 2 \<longrightarrow> cursorOutArg (Value (?bad2 ! k))"
  proof (intro allI impI)
    fix k :: nat assume "length ?F \<le> k \<and> k < 2"
    then have "k = 1" by simp
    then show "cursorOutArg (Value (?bad2 ! k))" by (simp add: cursorOutArg_def namedArg_def)
  qed
  have r: "length ?F \<le> 2" "2 < length ?bad1" "2 < length ?bad2" by simp_all
  from convertCallArgs_table_output_args
         [of sampleExt ?F ?bad1 8 _ _ "[namedArg 1 ''X'' (Prim 101)]" ?ca0 2,
          THEN conjunct2, THEN mp] fl1 r(1,2) b1 g1
  have e1: "convertCallArgs sampleExt ?F ?bad1 8 = Some (Inl (ParameterTypeAt (Prim 5) 2))"
    by (simp add: namedArg_def)
  from convertCallArgs_table_output_args
         [of sampleExt ?F ?bad2 8 _ _ "[namedArg 1 ''X'' (Prim 101)]" ?ca0 2,
          THEN conjunct2, THEN mp] fl2 r(1,3) b2 g2
  have e2: "convertCallArgs sampleExt ?F ?bad2 8 = Some (Inl (OutputParameterAt (Prim 5) 2))"
    by (simp add: namedArg_def)
  from ev cur e1 e2 show ?thesis by (intro conjI)
qed

text \<open>
  Two arguments behind the field that are no \<^verbatim>\<open>sql.Out\<close>: the error carries the index and
  the value of the first, and nothing of the one at index 2.  With an output field and
  a plain argument the loop over the fields fails first, and the error carries no index
  of the argument at index 1.
\<close>

theorem convertCallArgs_later_offender_counterexample:
  "\<not> cursorOutArg (Value ([namedArg 1 ''X'' (Prim 1), namedArg 2 '''' (Prim 5),
        namedArg 3 '''' (Prim 6)] ! 2))
   \<and> convertCallArgs sampleExt [inField ''X'']
       [namedArg 1 ''X'' (Prim 1), namedArg 2 '''' (Prim 5), namedArg 3 '''' (Prim 6)] 8 =
     Some (Inl (ParameterTypeAt (Prim 5) 1))
   \<and> \<not> cursorOutArg (Value ([namedArg 1 '''' (Prim 1), namedArg 2 '''' (Prim 5)] ! 1))
   \<and> convertCallArgs sampleExt [outField ''Y'']
       [namedArg 1 '''' (Prim 1), namedArg 2 '''' (Prim 5)] 8 =
     Some (Inl (OutArgWithNonOutField (outField ''Y'')))"
  by code_simp

subsection \<open>Ordinals and names\<close>







subsection \<open>Output wrappers of input fields\<close>

text \<open>
  In the loop over the fields an argument that is a \<^verbatim>\<open>sql.Out\<close> is never written to:
  for an input field the slot keeps its value, and the entry appended to \<^verbatim>\<open>inArgs\<close> is
  the argument as the caller gave it.
\<close>

lemma callField_out_wrapper_kept:
  assumes "callField ext sz F i f prm ca = Some (Inr (prm', ca'))"
    and "isOutArg (Value (reorderNVArgs i (pfName f) prm ! i))"
    and "pfIn f"
  shows "prm' = reorderNVArgs i (pfName f) prm"
    and "inArgs ca' = inArgs ca @ [reorderNVArgs i (pfName f) prm ! i]"
proof -
  let ?prm = "reorderNVArgs i (pfName f) prm"
  let ?nvarg = "?prm ! i"
  from assms(1) have i: "i < length ?prm"
    by (auto simp: callField_def Let_def split: if_splits)
  with assms(1,2) obtain out' nvarg' ca1 where
    cin: "callIn ext sz f True (Value ?nvarg) ?nvarg ca = Some (Inr (out', nvarg', ca1))"
    and cout: "callOut f True out' nvarg' ca1 = Inr ca'"
    and prm': "prm' = ?prm[i := nvarg']"
    by (auto simp: callField_def Let_def split: if_splits option.splits sum.splits)
  from callIn_isOut [OF cin assms(2)] have same: "nvarg' = ?nvarg" .
  show "prm' = ?prm" using prm' same i by simp
  from callIn_Inr(4) [OF cin] callOut_Inr(2) [OF cout] assms(3) same
  show "inArgs ca' = inArgs ca @ [?nvarg]" by simp
qed

text \<open>
  C1 does not hold of the code.  For an input field and a \<^verbatim>\<open>sql.Out\<close> argument with
  \<^verbatim>\<open>In\<close> set, line 191 converts the destination, but assigns the result to the copy of
  the \<^verbatim>\<open>sql.Out\<close> struct that line 183 made.  The argument keeps its value, the test of
  line 200 sees a \<^verbatim>\<open>sql.Out\<close> and calls no \<^verbatim>\<open>FetchNext\<close>, and the entry appended to
  \<^verbatim>\<open>inArgs\<close> holds the destination as the caller gave it.  Here the field is a LOB field
  and the destination \<open>Prim 20\<close>: its conversion is a descriptor with 20 bytes to send,
  and the same value passed without the wrapper is converted and its first chunk fetched.
\<close>

theorem convertCallArgs_in_out_wrapper_unconverted:
  "convertCallArgs sampleExt [lobField ''L''] [namedArg 1 '''' (Out (Prim 20) True)] 8 =
   Some (Inr ([namedArg 1 '''' (Out (Prim 20) True)],
     \<lparr>inFields = [lobField ''L''], outFields = [],
      inArgs = [namedArg 1 '''' (Out (Prim 20) True)], outArgs = []\<rparr>))
   \<and> convertArg sampleExt (lobField ''L'') (Prim 20) = Some (Inr (Lob (LobInDescr 20)))
   \<and> convertCallArgs sampleExt [lobField ''L''] [namedArg 1 '''' (Prim 20)] 8 =
   Some (Inr ([namedArg 1 '''' (Lob (LobInDescr 12))],
     \<lparr>inFields = [lobField ''L''], outFields = [],
      inArgs = [namedArg 1 '''' (Lob (LobInDescr 12))], outArgs = []\<rparr>))"
  by code_simp

end
